theory Spec2Isabelle
  imports Complex_Main
begin

section \<open>Python strings\<close>

text \<open>
  The scripts work on Python \<open>str\<close> values.  A HOL character stands for the code
  point of its number, so the strings of the model are the Python strings over the
  code points below 256.  On these the three library methods the code relies on are
  Python's own:
  \<^item> \<open>lower\<close> adds 32 to the code points \<open>A..Z\<close> (65 to 90) and to the accented capitals
    192 to 222 other than the multiplication sign 215, and leaves the rest;
  \<^item> \<open>strip\<close> removes leading and trailing white space, which is 9 to 13, 28 to 32,
    133 (next line) and 160 (no-break space);
  \<^item> \<open>isdigit\<close> holds for a non-empty string of digit characters, which are \<open>0..9\<close>
    (48 to 57) and the superscripts two, three and one (178, 179, 185).
  \<open>w in s\<close> is the substring test.
  Console output (\<open>print\<close>, \<open>logging\<close>) and the random pauses of \<open>human_pause\<close> carry
  no data and are left out of every definition below; the back-off sleeps of the retry
  loops are recorded.
\<close>

definition upper_code :: "nat \<Rightarrow> bool" where
  "upper_code n = ((65 \<le> n \<and> n \<le> 90) \<or> (192 \<le> n \<and> n \<le> 222 \<and> n \<noteq> 215))"

definition lower_char :: "char \<Rightarrow> char" where
  "lower_char c =
     (let n = (of_char c :: nat) in if upper_code n then char_of (n + 32) else c)"

definition lower :: "string \<Rightarrow> string" where
  "lower s = map lower_char s"

definition isspace :: "char \<Rightarrow> bool" where
  "isspace c =
     (let n = (of_char c :: nat) in
      (9 \<le> n \<and> n \<le> 13) \<or> (28 \<le> n \<and> n \<le> 32) \<or> n = 133 \<or> n = 160)"

definition strip :: "string \<Rightarrow> string" where
  "strip s = rev (dropWhile isspace (rev (dropWhile isspace s)))"

definition isdigit_char :: "char \<Rightarrow> bool" where
  "isdigit_char c =
     (let n = (of_char c :: nat) in (48 \<le> n \<and> n \<le> 57) \<or> n = 178 \<or> n = 179 \<or> n = 185)"

definition isdigit :: "string \<Rightarrow> bool" where
  "isdigit s = (s \<noteq> [] \<and> list_all isdigit_char s)"


fun startswith :: "string \<Rightarrow> string \<Rightarrow> bool" where
  "startswith s [] = True"
| "startswith [] (c # w) = False"
| "startswith (d # s) (c # w) = (d = c \<and> startswith s w)"

text \<open>\<open>substring_in w s\<close> is Python's \<open>w in s\<close> on strings.\<close>

fun substring_in :: "string \<Rightarrow> string \<Rightarrow> bool" where
  "substring_in w [] = (w = [])"
| "substring_in w (d # s) = (startswith (d # s) w \<or> substring_in w s)"

text \<open>\<open>any_in ws s\<close> is \<open>any(word in s for word in ws)\<close>.\<close>

definition any_in :: "string list \<Rightarrow> string \<Rightarrow> bool" where
  "any_in ws s = list_ex (\<lambda>w. substring_in w s) ws"

section \<open>Heuristic default answers\<close>

definition get_smart_fallback :: "string \<Rightarrow> string" where
  "get_smart_fallback question =
     (let q_lower = lower question in
      if any_in [''year'', ''experience'', ''salary'', ''number''] q_lower then ''0''
      else if any_in [''authorized'', ''eligible'', ''legal''] q_lower then ''Yes''
      else if any_in [''sponsor'', ''visa'', ''h1b''] q_lower then ''No''
      else if any_in [''relocate'', ''move'', ''willing''] q_lower then ''Yes''
      else if any_in [''start'', ''available'', ''notice''] q_lower then ''Immediately''
      else if any_in [''degree'', ''education'', ''university''] q_lower
        then ''Bachelor's Degree''
      else if any_in [''cover letter'', ''why'', ''interest''] q_lower
        then ''I am excited about this opportunity and believe my skills align well with the requirements.''
      else ''Yes'')"

text \<open>
  The same function as the specification words it: a table of keyword groups in
  priority order, each with its answer; the answer of the first group one of whose
  keywords occurs, ignoring case, somewhere in the question; \<open>Yes\<close> when no group
  matches.
\<close>

definition occurs_in :: "string \<Rightarrow> string \<Rightarrow> bool" where
  "occurs_in w s = (\<exists>p t. s = p @ w @ t)"

definition fallback_groups :: "(string list \<times> string) list" where
  "fallback_groups =
     [([''year'', ''experience'', ''salary'', ''number''], ''0''),
      ([''authorized'', ''eligible'', ''legal''], ''Yes''),
      ([''sponsor'', ''visa'', ''h1b''], ''No''),
      ([''relocate'', ''move'', ''willing''], ''Yes''),
      ([''start'', ''available'', ''notice''], ''Immediately''),
      ([''degree'', ''education'', ''university''], ''Bachelor's Degree''),
      ([''cover letter'', ''why'', ''interest''],
       ''I am excited about this opportunity and believe my skills align well with the requirements.'')]"

fun first_group :: "(string list \<times> string) list \<Rightarrow> string \<Rightarrow> string" where
  "first_group [] s = ''Yes''"
| "first_group ((ws, a) # gs) s =
     (if (\<exists>w. w \<in> set ws \<and> occurs_in w s) then a else first_group gs s)"

definition fallback_by_priority :: "string \<Rightarrow> string" where
  "fallback_by_priority question = first_group fallback_groups (lower question)"

section \<open>Exceptions and the language model\<close>

text \<open>
  Every call into the browser or the language-model service can raise.  A call that
  may raise returns a value of \<open>exn + 'a\<close>, with \<open>Inl\<close> the exception; each
  \<open>try ... except Exception\<close> of the source is a case distinction on it.
  The language model is outside the program: \<open>ask k\<close> is what the \<open>k\<close>-th chat
  request of a run produces, either an exception or the text of the first choice.
  The number of requests made so far is threaded through every function that asks.
  A function that asks returns its answer, the number of requests made once it
  returns, and the durations in seconds of the \<open>time.sleep\<close> calls it made, in order.
\<close>

datatype exn = TypeError | AttributeError | ValueError | BrowserError | ApiError

type_synonym llm = "nat \<Rightarrow> exn + string"

text \<open>
  The body of \<open>for attempt in range(max_retries)\<close> in \<open>answer_text_with_retry\<close>, over
  the attempts still to run; the first equation is the \<open>return\<close> after the loop.
\<close>

fun text_attempts ::
  "llm \<Rightarrow> string \<Rightarrow> nat \<Rightarrow> nat list \<Rightarrow> nat \<Rightarrow> string \<times> nat \<times> nat list" where
  "text_attempts ask q max_retries [] n = (get_smart_fallback q, n, [])"
| "text_attempts ask q max_retries (attempt # rest) n =
     (case ask n of
        Inr content \<Rightarrow> (strip content, Suc n, [])
      | Inl e \<Rightarrow>
          if attempt = max_retries - 1 then (get_smart_fallback q, Suc n, [])
          else (case text_attempts ask q max_retries rest (Suc n) of
            (answer, n', sleeps) \<Rightarrow> (answer, n', 2 ^ attempt # sleeps)))"

definition answer_text_with_retry ::
  "llm \<Rightarrow> string \<Rightarrow> nat \<Rightarrow> nat \<Rightarrow> string \<times> nat \<times> nat list" where
  "answer_text_with_retry ask q max_retries n =
     text_attempts ask q max_retries [0..<max_retries] n"

definition ANSWER_MAP :: "(string \<times> string) list" where
  "ANSWER_MAP =
     [(''legally authorized to work'', ''Yes''),
      (''require sponsorship'', ''No''),
      (''relocate'', ''Yes''),
      (''minimum salary'', ''0''),
      (''start date'', ''Immediately''),
      (''years of experience'', ''0''),
      (''notice period'', ''Immediately''),
      (''willing to relocate'', ''Yes''),
      (''authorized to work'', ''Yes''),
      (''visa sponsorship'', ''No'')]"

text \<open>
  \<open>for key, val in ANSWER_MAP.items(): if key in q.lower(): for option in options:
  if val.lower() in option.lower(): return option\<close>.
\<close>

fun mapped_option :: "(string \<times> string) list \<Rightarrow> string \<Rightarrow> string list \<Rightarrow> string option" where
  "mapped_option [] q options = None"
| "mapped_option ((key, val) # m) q options =
     (if substring_in key (lower q) then
        (case find (\<lambda>option. substring_in (lower val) (lower option)) options of
           Some option \<Rightarrow> Some option
         | None \<Rightarrow> mapped_option m q options)
      else mapped_option m q options)"

text \<open>\<open>options[0]\<close> is only evaluated on a non-empty list.\<close>

definition first_or :: "string list \<Rightarrow> string \<Rightarrow> string" where
  "first_or options d = (case options of [] \<Rightarrow> d | option # _ \<Rightarrow> option)"

fun select_attempts ::
  "llm \<Rightarrow> string \<Rightarrow> string list \<Rightarrow> nat \<Rightarrow> nat list \<Rightarrow> nat \<Rightarrow> string \<times> nat \<times> nat list" where
  "select_attempts ask q options max_retries [] n = (first_or options [], n, [])"
| "select_attempts ask q options max_retries (attempt # rest) n =
     (case ask n of
        Inr content \<Rightarrow>
          (let answer = strip content in
           case find (\<lambda>option. substring_in (lower answer) (lower option) \<or>
                                substring_in (lower option) (lower answer)) options of
             Some option \<Rightarrow> (option, Suc n, [])
           | None \<Rightarrow> (first_or options [], Suc n, []))
      | Inl e \<Rightarrow>
          if attempt = max_retries - 1 then
            (let fallback = get_smart_fallback q in
             case find (\<lambda>option. substring_in (lower fallback) (lower option)) options of
               Some option \<Rightarrow> (option, Suc n, [])
             | None \<Rightarrow> (first_or options [], Suc n, []))
          else (case select_attempts ask q options max_retries rest (Suc n) of
            (answer, n', sleeps) \<Rightarrow> (answer, n', 2 ^ attempt # sleeps)))"

definition answer_select_with_retry ::
  "llm \<Rightarrow> string \<Rightarrow> string list \<Rightarrow> nat \<Rightarrow> nat \<Rightarrow> string \<times> nat \<times> nat list" where
  "answer_select_with_retry ask q options max_retries n =
     (if options = [] then ([], n, [])
      else case mapped_option ANSWER_MAP q options of
        Some option \<Rightarrow> (option, n, [])
      | None \<Rightarrow> select_attempts ask q options max_retries [0..<max_retries] n)"

section \<open>Form sections\<close>

text \<open>
  A section of the application dialog, as the locators of \<open>process_form_fields\<close> see
  it: its inner text, its \<open>select\<close> elements with their options, its radio buttons,
  its labels, its number inputs and its text inputs and text areas, each list in
  document order.  Reading the inner text or the value of a control may raise, and so
  may writing to an input.
\<close>

record option_el =
  opt_value :: "string option"
  opt_text :: string

record select_el =
  sel_value :: "exn + string"
  sel_options :: "option_el list"

record radio_el =
  radio_name :: "string option"
  radio_id :: "string option"
  radio_value :: "string option"
  radio_checked :: bool

record label_el =
  label_for :: "string option"
  label_text :: string

record input_el =
  in_value :: "exn + string"
  in_fill_raises :: bool

record form_section =
  sec_text :: "exn + string"
  sec_selects :: "select_el list"
  sec_radios :: "radio_el list"
  sec_labels :: "label_el list"
  sec_numbers :: "input_el list"
  sec_texts :: "input_el list"

datatype field_action =
    Select_option nat string
  | Check_radio nat
  | Fill_number nat string
  | Fill_text nat string
  | Sleep nat

text \<open>
  The local variables of \<open>process_form_fields\<close> together with what it acts on: the
  section, \<open>did_fill\<close>, the number of language-model requests made so far, and what
  was done, oldest first: the writes performed and, between them, the back-off sleeps
  of the requests that failed.
\<close>

record form_state =
  fs_section :: form_section
  fs_did_fill :: bool
  fs_requests :: nat
  fs_actions :: "field_action list"

text \<open>\<open>if value:\<close> on an optional string, and the \<open>{...}\<close> of an f-string.\<close>

definition truthy :: "string option \<Rightarrow> bool" where
  "truthy v = (case v of None \<Rightarrow> False | Some x \<Rightarrow> x \<noteq> [])"

definition py_str :: "string option \<Rightarrow> string" where
  "py_str v = (case v of None \<Rightarrow> ''None'' | Some x \<Rightarrow> x)"

definition is_field_empty :: "input_el \<Rightarrow> bool" where
  "is_field_empty field =
     (case in_value field of Inl e \<Rightarrow> True | Inr current_value \<Rightarrow> strip current_value = [])"

definition fill :: "input_el \<Rightarrow> string \<Rightarrow> exn + input_el" where
  "fill field v = (if in_fill_raises field then Inl BrowserError else Inr (field\<lparr>in_value := Inr v\<rparr>))"

subsection \<open>Selects\<close>

definition select_options :: "select_el \<Rightarrow> string list" where
  "select_options sel =
     map (\<lambda>opt. strip (opt_text opt))
       (filter (\<lambda>opt. truthy (opt_value opt) \<and> strip (opt_text opt) \<noteq> [] \<and>
                       lower (strip (opt_text opt)) \<notin> set [''select'', ''choose'', ''pick''])
          (sel_options sel))"

text \<open>
  \<open>sel.select_option(label=ans)\<close>: the first option with that label becomes the
  selected one; the call raises when there is none.
\<close>

definition select_option :: "select_el \<Rightarrow> string \<Rightarrow> exn + select_el" where
  "select_option sel ans =
     (case find (\<lambda>opt. strip (opt_text opt) = ans) (sel_options sel) of
        None \<Rightarrow> Inl BrowserError
      | Some opt \<Rightarrow>
          Inr (sel\<lparr>sel_value :=
                 Inr (case opt_value opt of Some v \<Rightarrow> v | None \<Rightarrow> opt_text opt)\<rparr>))"

definition select_step :: "llm \<Rightarrow> nat \<Rightarrow> form_state \<Rightarrow> form_state" where
  "select_step ask sel_idx st =
     (let sec = fs_section st; sel = sec_selects sec ! sel_idx in
      case sel_value sel of
        Inl e \<Rightarrow> st
      | Inr current_value \<Rightarrow>
          if strip current_value \<noteq> [] then st
          else (case sec_text sec of
            Inl e \<Rightarrow> st
          | Inr raw \<Rightarrow>
              (let label = strip raw; options = select_options sel in
               if options = [] then st
               else (case answer_select_with_retry ask label options 3 (fs_requests st) of
                 (ans, n', sleeps) \<Rightarrow>
                   (case select_option sel ans of
                      Inl e \<Rightarrow>
                        st\<lparr>fs_requests := n',
                           fs_actions := fs_actions st @ map Sleep sleeps\<rparr>
                    | Inr sel' \<Rightarrow>
                        st\<lparr>fs_section := sec\<lparr>sec_selects := (sec_selects sec)[sel_idx := sel']\<rparr>,
                           fs_did_fill := True,
                           fs_requests := n',
                           fs_actions := fs_actions st @ map Sleep sleeps @
                             [Select_option sel_idx ans]\<rparr>)))))"

subsection \<open>Radio groups\<close>

text \<open>
  The label collected for one radio of a group: the text of the first
  \<open>label[for='<id>']\<close> of the section, else the radio's \<open>value\<close> attribute when it is
  not empty, else nothing.
\<close>

definition label_for_radio :: "form_section \<Rightarrow> radio_el \<Rightarrow> label_el option" where
  "label_for_radio sec r =
     find (\<lambda>l. label_for l = Some (py_str (radio_id r))) (sec_labels sec)"

definition radio_label :: "form_section \<Rightarrow> radio_el \<Rightarrow> string list" where
  "radio_label sec r =
     (case label_for_radio sec r of
        Some l \<Rightarrow> [strip (label_text l)]
      | None \<Rightarrow> (if truthy (radio_value r) then [the (radio_value r)] else []))"

text \<open>
  \<open>check()\<close> on a radio button: it becomes the checked one of the buttons that share
  its name.
\<close>

definition check_radio :: "nat \<Rightarrow> radio_el list \<Rightarrow> radio_el list" where
  "check_radio k radios =
     map (\<lambda>j. if j = k then (radios ! j)\<lparr>radio_checked := True\<rparr>
               else if radio_name (radios ! j) \<noteq> None \<and>
                       radio_name (radios ! j) = radio_name (radios ! k)
                 then (radios ! j)\<lparr>radio_checked := False\<rparr>
               else radios ! j)
       [0..<length radios]"

definition radio_step ::
  "llm \<Rightarrow> nat \<Rightarrow> form_state \<times> string option list \<Rightarrow> form_state \<times> string option list" where
  "radio_step ask radio_idx stp =
     (case stp of (st, processed_groups) \<Rightarrow>
      (let sec = fs_section st; radios = sec_radios sec; radio = radios ! radio_idx;
           name = radio_name radio in
       if name \<in> set processed_groups then (st, processed_groups)
       else if radio_checked radio then (st, name # processed_groups)
       else
         (let group_radios =
                filter (\<lambda>k. radio_name (radios ! k) = Some (py_str name)) [0..<length radios];
              labels = concat (map (\<lambda>k. radio_label sec (radios ! k)) group_radios) in
          if labels = [] then (st, name # processed_groups)
          else (case sec_text sec of
            Inl e \<Rightarrow> (st, name # processed_groups)
          | Inr raw \<Rightarrow>
              (case answer_select_with_retry ask (strip raw) labels 3 (fs_requests st) of
                 (choice, n', sleeps) \<Rightarrow>
                   (case find (\<lambda>k. case label_for_radio sec (radios ! k) of
                                      None \<Rightarrow> False
                                    | Some l \<Rightarrow> substring_in (lower choice)
                                                 (lower (strip (label_text l))))
                           group_radios of
                      None \<Rightarrow>
                        (st\<lparr>fs_requests := n',
                            fs_actions := fs_actions st @ map Sleep sleeps\<rparr>,
                         name # processed_groups)
                    | Some k \<Rightarrow>
                        (st\<lparr>fs_section := sec\<lparr>sec_radios := check_radio k radios\<rparr>,
                            fs_did_fill := True,
                            fs_requests := n',
                            fs_actions := fs_actions st @ map Sleep sleeps @ [Check_radio k]\<rparr>,
                         name # processed_groups)))))))"

subsection \<open>Number inputs\<close>

text \<open>The value chosen for an empty number input (the \<open>if/else\<close> before \<open>num.fill\<close>).\<close>

definition number_answer :: "llm \<Rightarrow> string \<Rightarrow> nat \<Rightarrow> string \<times> nat \<times> nat list" where
  "number_answer ask label n =
     (if any_in [''year'', ''experience'', ''salary''] (lower label) then (''0'', n, [])
      else (case answer_text_with_retry ask label 3 n of
        (ans, n', sleeps) \<Rightarrow> (if \<not> isdigit ans then ''0'' else ans, n', sleeps)))"

definition number_step :: "llm \<Rightarrow> nat \<Rightarrow> form_state \<Rightarrow> form_state" where
  "number_step ask num_idx st =
     (let sec = fs_section st; num = sec_numbers sec ! num_idx in
      if \<not> is_field_empty num then st
      else (case sec_text sec of
        Inl e \<Rightarrow> st
      | Inr raw \<Rightarrow>
          (case number_answer ask (strip raw) (fs_requests st) of
             (ans, n', sleeps) \<Rightarrow>
               (case fill num ans of
                  Inl e \<Rightarrow>
                    st\<lparr>fs_requests := n', fs_actions := fs_actions st @ map Sleep sleeps\<rparr>
                | Inr num' \<Rightarrow>
                    st\<lparr>fs_section := sec\<lparr>sec_numbers := (sec_numbers sec)[num_idx := num']\<rparr>,
                       fs_did_fill := True,
                       fs_requests := n',
                       fs_actions := fs_actions st @ map Sleep sleeps @
                         [Fill_number num_idx ans]\<rparr>))))"

subsection \<open>Text inputs\<close>

definition text_step :: "llm \<Rightarrow> nat \<Rightarrow> form_state \<Rightarrow> form_state" where
  "text_step ask txt_idx st =
     (let sec = fs_section st; fld = sec_texts sec ! txt_idx in
      if \<not> is_field_empty fld then st
      else (case sec_text sec of
        Inl e \<Rightarrow> st
      | Inr raw \<Rightarrow>
          (let label = strip raw; lw = lower label in
           case (case find (\<lambda>(key, val). substring_in key lw) ANSWER_MAP of
                   Some (key, val) \<Rightarrow> (val, fs_requests st, [])
                 | None \<Rightarrow> answer_text_with_retry ask label 3 (fs_requests st)) of
             (ans, n', sleeps) \<Rightarrow>
               (case fill fld ans of
                  Inl e \<Rightarrow>
                    st\<lparr>fs_requests := n', fs_actions := fs_actions st @ map Sleep sleeps\<rparr>
                | Inr fld' \<Rightarrow>
                    st\<lparr>fs_section := sec\<lparr>sec_texts := (sec_texts sec)[txt_idx := fld']\<rparr>,
                       fs_did_fill := True,
                       fs_requests := n',
                       fs_actions := fs_actions st @ map Sleep sleeps @
                         [Fill_text txt_idx ans]\<rparr>))))"

subsection \<open>The four passes\<close>

definition process_form_fields :: "llm \<Rightarrow> form_section \<Rightarrow> nat \<Rightarrow> form_state" where
  "process_form_fields ask sec n =
     (let st0 = \<lparr>fs_section = sec, fs_did_fill = False, fs_requests = n, fs_actions = []\<rparr>;
          st1 = fold (select_step ask) [0..<length (sec_selects sec)] st0;
          st2 = fst (fold (radio_step ask) [0..<length (sec_radios sec)] (st1, []));
          st3 = fold (number_step ask) [0..<length (sec_numbers sec)] st2;
          st4 = fold (text_step ask) [0..<length (sec_texts sec)] st3
      in st4)"

section \<open>The application dialog\<close>

text \<open>
  \<open>process_modal_with_timeout(page, modal, max_duration)\<close> receives two browser
  objects.  A \<open>Locator\<close> answers \<open>is_visible()\<close>; a \<open>Page\<close> does not (its \<open>is_visible\<close>
  needs a selector, so the call without one is a \<open>TypeError\<close>).  A \<open>Page\<close> has a
  keyboard; a \<open>Locator\<close> has none (\<open>AttributeError\<close>).  Both have \<open>locator(...)\<close>.
\<close>

datatype handle = Page_handle | Locator_handle

text \<open>
  What the dialog shows while one iteration of the loop runs: whether it is visible,
  the texts of its headings \<open>h1..h4\<close>, the texts of its buttons, which selectors have
  a visible first match, whether a click on that match raises, and the sections found
  by the two section queries.
\<close>

record modal_view =
  mv_visible :: "exn + bool"
  mv_headers :: "exn + string list"
  mv_buttons :: "exn + (exn + string) list"
  mv_selector_visible :: "string \<Rightarrow> exn + bool"
  mv_click_raises :: "string \<Rightarrow> bool"
  mv_sections :: "exn + form_section list"
  mv_divs :: "exn + form_section list"

datatype action = Field nat field_action | Click string | Press_escape

datatype outcome = Continue | Break | Return bool

text \<open>
  The local variables of \<open>process_modal_with_timeout\<close>, the number of language-model
  requests made so far, and the actions performed on the page, each with the number
  of the iteration that performed it.
\<close>

record modal_state =
  ms_loop_count :: nat
  ms_seen_states :: "string set"
  ms_requests :: nat
  ms_actions :: "(nat \<times> action) list"

definition is_visible :: "handle \<Rightarrow> modal_view \<Rightarrow> exn + bool" where
  "is_visible h view = (case h of Page_handle \<Rightarrow> Inl TypeError | Locator_handle \<Rightarrow> mv_visible view)"

fun join :: "string \<Rightarrow> string list \<Rightarrow> string" where
  "join sep [] = []"
| "join sep [x] = x"
| "join sep (x # y # ys) = x @ sep @ join sep (y # ys)"

text \<open>The stripped, non-empty texts of the buttons whose text can be read.\<close>

fun button_texts :: "(exn + string) list \<Rightarrow> string list" where
  "button_texts [] = []"
| "button_texts (Inl e # bs) = button_texts bs"
| "button_texts (Inr t # bs) =
     (if strip t \<noteq> [] then strip t # button_texts bs else button_texts bs)"

definition get_modal_state :: "modal_view \<Rightarrow> string" where
  "get_modal_state view =
     (case mv_headers view of
        Inl e \<Rightarrow> ''unknown_state''
      | Inr headers \<Rightarrow>
          (let header_text = (case headers of [] \<Rightarrow> [] | h # _ \<Rightarrow> strip h) in
           case mv_buttons view of
             Inl e \<Rightarrow> ''unknown_state''
           | Inr buttons \<Rightarrow>
               (let button_text =
                      (if length buttons > 0
                       then join ''|'' (button_texts (take (min (length buttons) 5) buttons))
                       else [])
                in header_text @ ''::'' @ button_text)))"

definition button_configs :: "(string \<times> string list) list" where
  "button_configs =
     [(''submit'',
        [''button:has-text('Submit')'', ''button[type='submit']'',
         ''button:has-text('Submit application')'', ''button[aria-label*='Submit']'']),
      (''review'',
        [''button:has-text('Review')'', ''button[aria-label*='Review']'',
         ''button:has-text('Review application')'']),
      (''next'',
        [''button:has-text('Next')'', ''button[aria-label*='Next']'',
         ''button:has-text('Continue')'', ''button:has-text('Save and continue')''])]"

text \<open>
  The two nested loops of \<open>find_navigation_button\<close>: the first selector, in the order
  of \<open>button_configs\<close>, whose first match is visible; a selector whose test raises is
  passed over.  The result is the button (named by its selector) and its type.
\<close>

fun first_visible :: "modal_view \<Rightarrow> string list \<Rightarrow> string option" where
  "first_visible view [] = None"
| "first_visible view (selector # selectors) =
     (case mv_selector_visible view selector of
        Inr True \<Rightarrow> Some selector
      | _ \<Rightarrow> first_visible view selectors)"

fun navigation_button_in ::
  "modal_view \<Rightarrow> (string \<times> string list) list \<Rightarrow> string option \<times> string" where
  "navigation_button_in view [] = (None, ''none'')"
| "navigation_button_in view ((button_type, selectors) # configs) =
     (case first_visible view selectors of
        Some selector \<Rightarrow> (Some selector, button_type)
      | None \<Rightarrow> navigation_button_in view configs)"

definition find_navigation_button :: "modal_view \<Rightarrow> string option \<times> string" where
  "find_navigation_button view = navigation_button_in view button_configs"

definition cancel_selectors :: "string list" where
  "cancel_selectors =
     [''button:has-text('Cancel')'', ''button:has-text('Dismiss')'',
      ''button:has-text('Close')'', ''button[aria-label*='Close']'',
      ''.artdeco-modal__dismiss'']"

text \<open>
  The loop over \<open>cancel_selectors\<close>: the first selector that is visible and whose click
  does not raise.
\<close>

fun first_cancel :: "modal_view \<Rightarrow> string list \<Rightarrow> string option" where
  "first_cancel view [] = None"
| "first_cancel view (selector # selectors) =
     (case mv_selector_visible view selector of
        Inr True \<Rightarrow>
          (if mv_click_raises view selector then first_cancel view selectors
           else Some selector)
      | _ \<Rightarrow> first_cancel view selectors)"

text \<open>\<open>page.keyboard.press("Escape")\<close> inside its own \<open>try ... except: pass\<close>.\<close>

definition press_escape :: "handle \<Rightarrow> action list" where
  "press_escape page = (case page of Page_handle \<Rightarrow> [Press_escape] | Locator_handle \<Rightarrow> [])"

definition performed :: "nat \<Rightarrow> action list \<Rightarrow> modal_state \<Rightarrow> modal_state" where
  "performed k as st = st\<lparr>ms_actions := ms_actions st @ map (Pair k) as\<rparr>"

text \<open>One section of a questions page: the body of \<open>for j in range(min(sections.count(), 10))\<close>.\<close>

definition section_step :: "llm \<Rightarrow> form_section list \<Rightarrow> nat \<Rightarrow> modal_state \<Rightarrow> modal_state" where
  "section_step ask sections j st =
     (case sec_text (sections ! j) of
        Inl e \<Rightarrow> st
      | Inr raw \<Rightarrow>
          if length (strip raw) > 10 then
            (let fs = process_form_fields ask (sections ! j) (ms_requests st) in
             performed (ms_loop_count st) (map (Field j) (fs_actions fs))
               (st\<lparr>ms_requests := fs_requests fs\<rparr>))
          else st)"

text \<open>
  \<open>nav_btn.click()\<close> followed by \<open>if btn_type == "submit": return True\<close>; a click that
  raises ends the loop through the handler of the iteration.
\<close>

definition click_navigation ::
  "modal_view \<Rightarrow> string \<Rightarrow> string \<Rightarrow> modal_state \<Rightarrow> outcome \<times> modal_state" where
  "click_navigation view selector button_type st =
     (if mv_click_raises view selector then (Break, st)
      else (if button_type = ''submit'' then Return True else Continue,
            performed (ms_loop_count st) [Click selector] st))"

text \<open>
  The body of the \<open>while\<close> loop after \<open>loop_count += 1\<close>.  Every exception inside it is
  caught by the handler of the iteration, which breaks.
\<close>

definition modal_iteration ::
  "llm \<Rightarrow> handle \<Rightarrow> handle \<Rightarrow> modal_view \<Rightarrow> modal_state \<Rightarrow> outcome \<times> modal_state" where
  "modal_iteration ask page modal view st =
     (case is_visible modal view of
        Inl e \<Rightarrow> (Break, st)
      | Inr visible \<Rightarrow>
          if \<not> visible then (Break, st)
          else
            (let current_state = get_modal_state view in
             if current_state \<in> ms_seen_states st then (Break, st)
             else
               (let st1 = st\<lparr>ms_seen_states := insert current_state (ms_seen_states st)\<rparr> in
                case mv_headers view of
                  Inl e \<Rightarrow> (Break, st1)
                | Inr headers \<Rightarrow>
                    (let header_text = (case headers of [] \<Rightarrow> [] | h # _ \<Rightarrow> lower (strip h)) in
                     if any_in [''contact info'', ''resume'', ''cv''] header_text then
                       (case find_navigation_button view of
                          (Some selector, button_type) \<Rightarrow>
                            if button_type \<in> set [''next'', ''review''] then
                              (if mv_click_raises view selector then (Break, st1)
                               else (Continue, performed (ms_loop_count st1) [Click selector] st1))
                            else (Break, st1)
                        | (None, button_type) \<Rightarrow> (Break, st1))
                     else if any_in [''question'', ''education'', ''work'', ''additional'',
                                     ''experience''] header_text then
                       (case mv_sections view of
                          Inl e \<Rightarrow> (Break, st1)
                        | Inr found \<Rightarrow>
                            (case (if found = [] then mv_divs view else Inr found) of
                               Inl e \<Rightarrow> (Break, st1)
                             | Inr sections \<Rightarrow>
                                 (let st2 = fold (section_step ask sections)
                                              [0..<min (length sections) 10] st1 in
                                  case find_navigation_button view of
                                    (Some selector, button_type) \<Rightarrow>
                                      click_navigation view selector button_type st2
                                  | (None, button_type) \<Rightarrow> (Break, st2))))
                     else
                       (case find_navigation_button view of
                          (Some selector, button_type) \<Rightarrow>
                            click_navigation view selector button_type st1
                        | (None, button_type) \<Rightarrow>
                            (case first_cancel view cancel_selectors of
                               Some selector \<Rightarrow>
                                 (Break, performed (ms_loop_count st1) [Click selector] st1)
                             | None \<Rightarrow>
                                 (Break, performed (ms_loop_count st1) (press_escape page) st1)))))))"

text \<open>
  An iteration does not touch \<open>loop_count\<close>; this is what makes the loop below a
  terminating recursion.
\<close>

lemma performed_loop_count: "ms_loop_count (performed k as st) = ms_loop_count st"
  by (simp add: performed_def)

lemma section_step_loop_count:
  "ms_loop_count (section_step ask sections j st) = ms_loop_count st"
  by (simp add: section_step_def Let_def performed_loop_count split: sum.splits)

lemma sections_loop_count:
  "ms_loop_count (fold (section_step ask sections) js st) = ms_loop_count st"
  by (induction js arbitrary: st) (simp_all add: section_step_loop_count)

lemma click_navigation_loop_count:
  "ms_loop_count (snd (click_navigation view selector button_type st)) = ms_loop_count st"
  by (simp add: click_navigation_def performed_loop_count)

lemma modal_iteration_loop_count:
  "ms_loop_count (snd (modal_iteration ask page modal view st)) = ms_loop_count st"
  by (simp add: modal_iteration_def Let_def performed_loop_count sections_loop_count
      click_navigation_loop_count split: sum.splits prod.splits option.splits list.splits)

lemma modal_iteration_keeps_count:
  "modal_iteration ask page modal view st = (oc, st') \<Longrightarrow> ms_loop_count st' = ms_loop_count st"
  using modal_iteration_loop_count [of ask page modal view st] by simp

text \<open>
  The clock is outside the program as well: \<open>clock 0\<close> is the reading stored in
  \<open>start_time\<close>, and \<open>clock k\<close> for \<open>k > 0\<close> is the reading taken by the \<open>k\<close>-th
  evaluation of the loop condition.  \<open>views k\<close> is the dialog during iteration \<open>k\<close>.
  The loop returns the value the function returns together with the final state.
\<close>

definition max_loops :: nat where
  "max_loops = 20"

function modal_loop ::
  "llm \<Rightarrow> (nat \<Rightarrow> real) \<Rightarrow> (nat \<Rightarrow> modal_view) \<Rightarrow> handle \<Rightarrow> handle \<Rightarrow> int \<Rightarrow>
   modal_state \<Rightarrow> bool \<times> modal_state" where
  "modal_loop ask clock views page modal max_duration st =
     (if clock (Suc (ms_loop_count st)) - clock 0 < real_of_int max_duration \<and>
         ms_loop_count st < max_loops
      then
        (let st' = st\<lparr>ms_loop_count := Suc (ms_loop_count st)\<rparr> in
         case modal_iteration ask page modal (views (ms_loop_count st')) st' of
           (Continue, st'') \<Rightarrow> modal_loop ask clock views page modal max_duration st''
         | (Break, st'') \<Rightarrow> (False, st'')
         | (Return b, st'') \<Rightarrow> (b, st''))
      else (False, st))"
  by pat_completeness auto
termination
  by (relation "measure (\<lambda>(ask, clock, views, page, modal, max_duration, st).
        max_loops - ms_loop_count st)")
     (auto dest!: modal_iteration_keeps_count [OF sym])

definition process_modal_with_timeout ::
  "llm \<Rightarrow> (nat \<Rightarrow> real) \<Rightarrow> (nat \<Rightarrow> modal_view) \<Rightarrow> handle \<Rightarrow> handle \<Rightarrow> int \<Rightarrow> nat \<Rightarrow>
   bool \<times> modal_state" where
  "process_modal_with_timeout ask clock views page modal max_duration n =
     modal_loop ask clock views page modal max_duration
       \<lparr>ms_loop_count = 0, ms_seen_states = {}, ms_requests = n, ms_actions = []\<rparr>"

text \<open>
  \<open>time.sleep(s)\<close> returns no sooner than \<open>s\<close> seconds after it was called.  Of a
  log of actions, \<open>after_sleeping limit\<close> keeps the actions other than sleeps that come
  after sleeps of \<open>limit\<close> seconds or more in total: when one of them is performed, at
  least \<open>limit\<close> seconds have passed since the log was begun.
\<close>

fun after_sleeping :: "nat \<Rightarrow> (nat \<times> action) list \<Rightarrow> (nat \<times> action) list" where
  "after_sleeping limit [] = []"
| "after_sleeping limit ((k, Field j (Sleep s)) # rest) = after_sleeping (limit - s) rest"
| "after_sleeping limit ((k, a) # rest) =
     (if limit = 0 then (k, a) # after_sleeping limit rest else after_sleeping limit rest)"

section \<open>The job loop and the record file\<close>

text \<open>
  The settings \<open>main\<close> reads from the environment when the script starts
  (\<open>MAX_APPLIES\<close>, default 5; \<open>MODAL_TIMEOUT\<close>, default 300), as integers.
\<close>

record config =
  MAX_APPLIES :: int
  MODAL_TIMEOUT :: int

text \<open>
  \<open>success = process_modal_with_timeout(modal, page)\<close> in \<open>main\<close>: the first argument,
  bound to the parameter \<open>page\<close>, is the dialog's locator, and the second, bound to the
  parameter \<open>modal\<close>, is the page; \<open>max_duration\<close> is not passed and keeps its default
  of 300.
\<close>

definition main_process_modal ::
  "config \<Rightarrow> llm \<Rightarrow> (nat \<Rightarrow> real) \<Rightarrow> (nat \<Rightarrow> modal_view) \<Rightarrow> nat \<Rightarrow> bool \<times> modal_state" where
  "main_process_modal cfg ask clock views n =
     process_modal_with_timeout ask clock views Locator_handle Page_handle 300 n"

text \<open>
  What the browser shows while \<open>main\<close> handles one job: the number of job cards, the
  visibility and text of the card's elements by selector, the card's link, whether
  clicking the card or waiting for the user raises, whether waiting for the dialog
  raises, whether the dialog and its alternative selectors are visible, the clock
  readings and dialog views of the dialog processing, the readings of \<open>main\<close>'s own
  start and end of the application, and the formatted current date.
\<close>

record job_view =
  jv_cards_count :: "exn + nat"
  jv_visible :: "string \<Rightarrow> exn + bool"
  jv_text :: "string \<Rightarrow> exn + string"
  jv_href :: "exn + string option"
  jv_click_raises :: bool
  jv_wait_raises :: bool
  jv_dialog_visible :: "exn + bool"
  jv_alt_visible :: "string \<Rightarrow> exn + bool"
  jv_clock :: "nat \<Rightarrow> real"
  jv_views :: "nat \<Rightarrow> modal_view"
  jv_start :: real
  jv_end :: real
  jv_now :: string

text \<open>A record of \<open>results\<close>: a Python dictionary, in insertion order.\<close>

type_synonym record_dict = "(string \<times> string) list"

record main_state =
  results :: "record_dict list"
  requests :: nat

text \<open>
  The loops over \<open>title_selectors\<close> and \<open>company_selectors\<close>: the stripped text of the
  first selector that is visible and readable, else the default.
\<close>

fun first_text :: "job_view \<Rightarrow> string list \<Rightarrow> string \<Rightarrow> string" where
  "first_text v [] d = d"
| "first_text v (selector # selectors) d =
     (case jv_visible v selector of
        Inr True \<Rightarrow>
          (case jv_text v selector of
             Inr t \<Rightarrow> strip t
           | Inl e \<Rightarrow> first_text v selectors d)
      | _ \<Rightarrow> first_text v selectors d)"

fun first_alternative :: "job_view \<Rightarrow> string list \<Rightarrow> bool" where
  "first_alternative v [] = False"
| "first_alternative v (selector # selectors) =
     (case jv_alt_visible v selector of
        Inr True \<Rightarrow> True
      | _ \<Rightarrow> first_alternative v selectors)"

text \<open>\<open>s.replace(",", " -")\<close>, \<open>str(n)\<close> and \<open>int(x)\<close> of a float.\<close>

definition replace_commas :: "string \<Rightarrow> string" where
  "replace_commas s = concat (map (\<lambda>c. if c = CHR '','' then '' -'' else [c]) s)"

function str_nat :: "nat \<Rightarrow> string" where
  "str_nat n =
     (if n < 10 then [''0123456789'' ! n]
      else str_nat (n div 10) @ [''0123456789'' ! (n mod 10)])"
  by pat_completeness auto
termination
  by (relation "measure id") auto

definition str_int :: "int \<Rightarrow> string" where
  "str_int i = (if i < 0 then ''-'' @ str_nat (nat (- i)) else str_nat (nat i))"

definition truncate :: "real \<Rightarrow> int" where
  "truncate x = (if 0 \<le> x then \<lfloor>x\<rfloor> else \<lceil>x\<rceil>)"

definition application_record ::
  "string \<Rightarrow> string \<Rightarrow> string \<Rightarrow> string \<Rightarrow> string \<Rightarrow> bool \<Rightarrow> record_dict" where
  "application_record title company link timestamp duration success =
     [(''Title'', replace_commas title),
      (''Company'', replace_commas company),
      (''Link'', link),
      (''DateApplied'', timestamp),
      (''Runtime'', duration),
      (''Status'', if success then ''Success'' else ''Incomplete'')]"

text \<open>
  The body of \<open>for i in range(total)\<close>.  Both of its handlers \<open>continue\<close>, so an
  exception anywhere before \<open>results.append\<close> leaves \<open>results\<close> as it was.  Clicks on
  the page outside the dialog have no part in what is recorded and are not tracked.
\<close>

definition job_step :: "config \<Rightarrow> llm \<Rightarrow> (nat \<Rightarrow> job_view) \<Rightarrow> nat \<Rightarrow> main_state \<Rightarrow> main_state" where
  "job_step cfg ask jobs i st =
     (let v = jobs i in
      case jv_cards_count v of
        Inl e \<Rightarrow> st
      | Inr cards \<Rightarrow>
          if i \<ge> cards then st
          else
            (let title = first_text v
                   [''h3'', ''.job-card-list__title'', ''[data-test-id*='title']'']
                   ''hidden title'';
                 company = first_text v
                   [''h4'', ''.job-card-container__company-name'', ''[data-test-id*='company']'']
                   ''hidden company'';
                 link = (case jv_href v of Inr (Some href) \<Rightarrow> href | _ \<Rightarrow> []) in
             if jv_click_raises v then st
             else if jv_wait_raises v then st
             else (case jv_dialog_visible v of
               Inl e \<Rightarrow> st
             | Inr visible \<Rightarrow>
                 if \<not> visible \<and>
                    \<not> first_alternative v
                        [''div[role='dialog']'', ''.artdeco-modal'', ''.jobs-easy-apply-modal'',
                         ''[data-test-modal]'']
                 then st
                 else
                   (case main_process_modal cfg ask (jv_clock v) (jv_views v) (requests st) of
                      (success, ms) \<Rightarrow>
                        (let duration = str_int (truncate (jv_end v - jv_start v)) @ '' sec'';
                             timestamp = jv_now v in
                         st\<lparr>results := results st @
                               [application_record title company link timestamp duration success],
                            requests := ms_requests ms\<rparr>)))))"

text \<open>
  \<open>total = min(count, MAX_APPLIES)\<close> and the loop over \<open>range(total)\<close>, where \<open>count\<close> is
  the number of job cards the scrolling loop ended with.
\<close>

definition job_loop :: "config \<Rightarrow> llm \<Rightarrow> nat \<Rightarrow> (nat \<Rightarrow> job_view) \<Rightarrow> nat \<Rightarrow> main_state" where
  "job_loop cfg ask count jobs n =
     (let total = min (int count) (MAX_APPLIES cfg) in
      fold (job_step cfg ask jobs) [0..<nat total] \<lparr>results = [], requests = n\<rparr>)"

subsection \<open>Writing the records\<close>

text \<open>
  The record file is modelled by the records it holds, oldest first, each a list of
  fields; \<open>None\<close> is a file that does not exist.  \<open>csv.DictWriter(f, fieldnames)\<close>
  writes the values of a dictionary in the order of \<open>fieldnames\<close>, an empty field for
  a missing key, and raises \<open>ValueError\<close> for a dictionary with a key that is not a
  field name.
\<close>

type_synonym csv_file = "string list list"

definition dict_row :: "string list \<Rightarrow> record_dict \<Rightarrow> exn + string list" where
  "dict_row fieldnames d =
     (if list_ex (\<lambda>(key, val). key \<notin> set fieldnames) d then Inl ValueError
      else Inr (map (\<lambda>key. case map_of d key of Some val \<Rightarrow> val | None \<Rightarrow> []) fieldnames))"

fun writerows :: "string list \<Rightarrow> csv_file \<Rightarrow> record_dict list \<Rightarrow> csv_file \<times> exn option" where
  "writerows fieldnames f [] = (f, None)"
| "writerows fieldnames f (d # ds) =
     (case dict_row fieldnames d of
        Inl e \<Rightarrow> (f, Some e)
      | Inr row \<Rightarrow> writerows fieldnames (f @ [row]) ds)"

text \<open>
  \<open>file_exists = os.path.isfile(CSV_PATH)\<close>, then \<open>open(CSV_PATH, "a")\<close>, the header
  when the file did not exist, and the rows.
\<close>

definition save_results ::
  "string list \<Rightarrow> csv_file option \<Rightarrow> record_dict list \<Rightarrow> csv_file \<times> exn option" where
  "save_results fieldnames file rs =
     (let file_exists = (file \<noteq> None);
          f = (case file of None \<Rightarrow> [] | Some content \<Rightarrow> content);
          f' = (if \<not> file_exists then f @ [fieldnames] else f)
      in writerows fieldnames f' rs)"

definition fieldnames :: "string list" where
  "fieldnames = [''Title'', ''Company'', ''Link'', ''DateApplied'', ''Runtime'', ''Status'']"

text \<open>\<open>main\<close> of \<open>linkedin_easy_apply_improved.py\<close>, from the job loop to the end.\<close>

definition main ::
  "config \<Rightarrow> llm \<Rightarrow> nat \<Rightarrow> (nat \<Rightarrow> job_view) \<Rightarrow> csv_file option \<Rightarrow> csv_file \<times> exn option" where
  "main cfg ask count jobs file =
     save_results fieldnames file (results (job_loop cfg ask count jobs 0))"

subsection \<open>The first version of the script\<close>

text \<open>
  \<open>automation.py\<close> records an application with \<open>results.append({...})\<close> of five keys
  and writes with five field names; its \<open>link\<close> is the \<open>href\<close> attribute as read,
  which the writer turns into an empty field when it is \<open>None\<close>.
\<close>

definition automation_record ::
  "string \<Rightarrow> string \<Rightarrow> string option \<Rightarrow> string \<Rightarrow> string \<Rightarrow> record_dict" where
  "automation_record title company link timestamp dur =
     [(''Title'', title),
      (''Company'', company),
      (''Link'', case link of None \<Rightarrow> [] | Some href \<Rightarrow> href),
      (''DateApplied'', timestamp),
      (''Runtime'', dur)]"

definition automation_fieldnames :: "string list" where
  "automation_fieldnames = [''Title'', ''Company'', ''Link'', ''DateApplied'', ''Runtime'']"

definition automation_save :: "csv_file option \<Rightarrow> record_dict list \<Rightarrow> csv_file \<times> exn option" where
  "automation_save file rs = save_results automation_fieldnames file rs"

section \<open>Example inputs\<close>


definition says :: "string \<Rightarrow> llm" where
  "says content = (\<lambda>k. Inr content)"

text \<open>
  A radio group \<open>travel\<close> of two buttons, each with its label, in which the second
  button is the checked one.
\<close>

definition travel_section :: form_section where
  "travel_section =
     \<lparr>sec_text = Inr ''Are you able to travel?'',
      sec_selects = [],
      sec_radios =
        [\<lparr>radio_name = Some ''travel'', radio_id = Some ''travel-yes'',
          radio_value = Some ''yes'', radio_checked = False\<rparr>,
         \<lparr>radio_name = Some ''travel'', radio_id = Some ''travel-no'',
          radio_value = Some ''no'', radio_checked = True\<rparr>],
      sec_labels =
        [\<lparr>label_for = Some ''travel-yes'', label_text = ''Yes''\<rparr>,
         \<lparr>label_for = Some ''travel-no'', label_text = ''No''\<rparr>],
      sec_numbers = [],
      sec_texts = []\<rparr>"

text \<open>
  A page of the dialog with one heading and a visible \<open>Next\<close> button, a wizard whose
  pages all differ, and a dialog that shows the same page again after \<open>Next\<close>.
\<close>

definition wizard_page :: "string \<Rightarrow> modal_view" where
  "wizard_page title =
     \<lparr>mv_visible = Inr True,
      mv_headers = Inr [title],
      mv_buttons = Inr [Inr ''Next''],
      mv_selector_visible = (\<lambda>selector. Inr (selector = ''button:has-text('Next')'')),
      mv_click_raises = (\<lambda>selector. False),
      mv_sections = Inr [],
      mv_divs = Inr []\<rparr>"

definition numbered_pages :: "nat \<Rightarrow> modal_view" where
  "numbered_pages k = wizard_page (''Step '' @ str_nat k)"

definition same_page :: "nat \<Rightarrow> modal_view" where
  "same_page k = wizard_page ''Apply to Acme''"

text \<open>
  A questions page of ten sections with eleven empty text inputs each, and a language
  model whose every request fails.
\<close>

definition empty_input :: input_el where
  "empty_input = \<lparr>in_value = Inr [], in_fill_raises = False\<rparr>"

definition essay_section :: form_section where
  "essay_section =
     \<lparr>sec_text = Inr ''Tell us more'',
      sec_selects = [],
      sec_radios = [],
      sec_labels = [],
      sec_numbers = [],
      sec_texts = replicate 11 empty_input\<rparr>"

definition questions_page :: "nat \<Rightarrow> modal_view" where
  "questions_page k =
     (wizard_page ''Additional Questions'')\<lparr>mv_sections := Inr (replicate 10 essay_section)\<rparr>"

definition never_answers :: llm where
  "never_answers = (\<lambda>k. Inl ApiError)"

text \<open>
  A job card with a title and a company, whose dialog opens, and a run that may apply
  to two jobs.
\<close>

definition acme_job :: job_view where
  "acme_job =
     \<lparr>jv_cards_count = Inr 3,
      jv_visible = (\<lambda>selector. Inr (selector = ''h3'' \<or> selector = ''h4'')),
      jv_text = (\<lambda>selector. Inr (if selector = ''h3'' then '' Intern, Software '' else ''Acme'')),
      jv_href = Inr (Some ''/jobs/view/1''),
      jv_click_raises = False,
      jv_wait_raises = False,
      jv_dialog_visible = Inr True,
      jv_alt_visible = (\<lambda>selector. Inr False),
      jv_clock = (\<lambda>k. 0),
      jv_views = same_page,
      jv_start = 5,
      jv_end = 35 / 2,
      jv_now = ''2025-01-01 10:00:00''\<rparr>"

definition two_applies :: config where
  "two_applies = \<lparr>MAX_APPLIES = 2, MODAL_TIMEOUT = 300\<rparr>"

section \<open>Properties\<close>

lemma startswith_iff: "startswith s w \<longleftrightarrow> (\<exists>t. s = w @ t)"
  by (induction s w rule: startswith.induct) auto

lemma substring_in_iff: "substring_in w s \<longleftrightarrow> occurs_in w s"
proof (induction s)
  case Nil
  show ?case by (auto simp: occurs_in_def)
next
  case (Cons d s)
  have "occurs_in w (d # s) \<longleftrightarrow> (\<exists>t. d # s = w @ t) \<or> occurs_in w s"
  proof
    assume "occurs_in w (d # s)"
    then obtain p t where eq: "d # s = p @ w @ t" by (auto simp: occurs_in_def)
    show "(\<exists>t. d # s = w @ t) \<or> occurs_in w s"
    proof (cases p)
      case Nil
      with eq show ?thesis by auto
    next
      case (Cons e p')
      with eq have "s = p' @ w @ t" by simp
      then show ?thesis by (auto simp: occurs_in_def)
    qed
  next
    assume "(\<exists>t. d # s = w @ t) \<or> occurs_in w s"
    then show "occurs_in w (d # s)"
    proof
      assume "\<exists>t. d # s = w @ t"
      then obtain t where "d # s = [] @ w @ t" by auto
      then show ?thesis unfolding occurs_in_def by blast
    next
      assume "occurs_in w s"
      then obtain p t where "s = p @ w @ t" by (auto simp: occurs_in_def)
      then have "d # s = (d # p) @ w @ t" by simp
      then show ?thesis unfolding occurs_in_def by blast
    qed
  qed
  with Cons show ?case by (simp add: startswith_iff)
qed

lemma any_in_iff: "any_in ws s \<longleftrightarrow> (\<exists>w. w \<in> set ws \<and> occurs_in w s)"
  by (auto simp: any_in_def list_ex_iff substring_in_iff)

lemma lower_char_idem: "lower_char (lower_char c) = lower_char c"
proof (cases "upper_code (of_char c)")
  case True
  have "(of_char c :: nat) + 32 < 256"
    using True by (auto simp: upper_code_def)
  then have m: "(of_char c + 32 :: nat) mod 256 = of_char c + 32" by simp
  have "\<not> upper_code (of_char c + 32)"
    using True by (auto simp: upper_code_def)
  with True m show ?thesis by (simp add: lower_char_def Let_def)
next
  case False
  then show ?thesis by (simp add: lower_char_def Let_def)
qed

lemma lower_idem: "lower (lower s) = lower s"
  by (simp add: lower_def lower_char_idem)

text \<open>
  Claim C8.  \<open>get_smart_fallback\<close> is a total function of the question alone, and it
  is the priority table of the specification: the question is lower-cased, the groups
  (year/experience/salary/number, authorized/eligible/legal, sponsor/visa/h1b,
  relocate/move/willing, start/available/notice, degree/education/university,
  cover letter/why/interest) are tried in this order with a keyword matching when it
  occurs as a substring, the first matching group gives \<open>0\<close>, \<open>Yes\<close>, \<open>No\<close>, \<open>Yes\<close>,
  \<open>Immediately\<close>, \<open>Bachelor's Degree\<close> or the cover-letter sentence, and a question
  matching no group gives \<open>Yes\<close>.  Case is ignored: the answer for a question is the
  answer for its lower-cased form.
\<close>

theorem get_smart_fallback_priority:
  "get_smart_fallback question = fallback_by_priority question \<and>
   get_smart_fallback (lower question) = get_smart_fallback question"
proof
  show "get_smart_fallback question = fallback_by_priority question"
    by (simp add: get_smart_fallback_def fallback_by_priority_def fallback_groups_def
        Let_def any_in_iff del: set_simps)
  show "get_smart_fallback (lower question) = get_smart_fallback question"
    by (simp only: get_smart_fallback_def lower_idem)
qed

theorem get_smart_fallback_priority_witness:
  "get_smart_fallback ''Do you need VISA sponsorship?'' = ''No'' \<and>
   fallback_by_priority ''Do you need VISA sponsorship?'' = ''No'' \<and>
   get_smart_fallback ''do you need visa sponsorship?'' = ''No''"
proof -
  have v: "get_smart_fallback ''Do you need VISA sponsorship?'' = ''No''"
    by code_simp
  have l: "lower ''Do you need VISA sponsorship?'' = ''do you need visa sponsorship?''"
    by code_simp
  from get_smart_fallback_priority [of "''Do you need VISA sponsorship?''"] v l
  show ?thesis by simp
qed

lemma text_attempts_all_fail:
  "(\<And>j. j < length as \<Longrightarrow> isl (ask (n + j))) \<Longrightarrow>
   fst (text_attempts ask q mr as n) = get_smart_fallback q"
proof (induction as arbitrary: n)
  case Nil
  show ?case by simp
next
  case (Cons a as)
  from Cons.prems [of 0] obtain e where e: "ask n = Inl e"
    by (cases "ask n") auto
  have "fst (text_attempts ask q mr as (Suc n)) = get_smart_fallback q"
  proof (rule Cons.IH)
    fix j assume "j < length as"
    then show "isl (ask (Suc n + j))" using Cons.prems [of "Suc j"] by simp
  qed
  with e show ?case by (simp add: case_prod_unfold)
qed

lemma text_attempts_first_success:
  "i < length as \<Longrightarrow> (\<And>j. j < i \<Longrightarrow> isl (ask (n + j)) \<and> as ! j \<noteq> mr - 1) \<Longrightarrow>
   ask (n + i) = Inr c \<Longrightarrow> fst (text_attempts ask q mr as n) = strip c"
proof (induction as arbitrary: n i)
  case Nil
  then show ?case by simp
next
  case (Cons a as)
  show ?case
  proof (cases i)
    case 0
    with Cons.prems(3) show ?thesis by simp
  next
    case (Suc i')
    from Cons.prems(2) [of 0] Suc obtain e where e: "ask n = Inl e" and a: "a \<noteq> mr - 1"
      by (cases "ask n") auto
    have "fst (text_attempts ask q mr as (Suc n)) = strip c"
    proof (rule Cons.IH [of i'])
      show "i' < length as" using Cons.prems(1) Suc by simp
      show "ask (Suc n + i') = Inr c" using Cons.prems(3) Suc by simp
      fix j assume "j < i'"
      then show "isl (ask (Suc n + j)) \<and> as ! j \<noteq> mr - 1"
        using Cons.prems(2) [of "Suc j"] Suc by simp
    qed
    with e a show ?thesis by (simp add: case_prod_unfold)
  qed
qed

text \<open>
  Claim C4.  \<open>answer_text_with_retry(q)\<close> makes up to three requests and always
  returns a string (an exception of a request is caught, so none leaves the
  function): when the first request that does not raise is the \<open>i\<close>-th, \<open>i < 3\<close>, the
  result is that request's text, stripped; when all three requests raise, the result
  is \<open>get_smart_fallback(q)\<close>.
\<close>

theorem answer_text_with_retry_result:
  "(\<forall>i c. i < 3 \<and> (\<forall>j. j < i \<longrightarrow> isl (ask (n + j))) \<and> ask (n + i) = Inr c \<longrightarrow>
      fst (answer_text_with_retry ask q 3 n) = strip c) \<and>
   ((\<forall>j. j < 3 \<longrightarrow> isl (ask (n + j))) \<longrightarrow>
      fst (answer_text_with_retry ask q 3 n) = get_smart_fallback q)"
proof (intro conjI allI impI)
  fix i c
  assume h: "i < 3 \<and> (\<forall>j. j < i \<longrightarrow> isl (ask (n + j))) \<and> ask (n + i) = Inr c"
  show "fst (answer_text_with_retry ask q 3 n) = strip c"
    unfolding answer_text_with_retry_def
  proof (rule text_attempts_first_success [of i])
    show "i < length [0..<3]" using h by simp
    show "ask (n + i) = Inr c" using h by simp
    fix j assume "j < i"
    then show "isl (ask (n + j)) \<and> [0..<3] ! j \<noteq> 3 - 1" using h by simp
  qed
next
  assume h: "\<forall>j. j < 3 \<longrightarrow> isl (ask (n + j))"
  show "fst (answer_text_with_retry ask q 3 n) = get_smart_fallback q"
    unfolding answer_text_with_retry_def
    by (rule text_attempts_all_fail) (use h in simp)
qed

theorem answer_text_with_retry_result_witness:
  "fst (answer_text_with_retry (\<lambda>k. if k = 1 then Inr '' 42 '' else Inl ApiError)
          ''How many?'' 3 0) = ''42'' \<and>
   fst (answer_text_with_retry (\<lambda>k. Inl ApiError) ''Why us?'' 3 0) =
     ''I am excited about this opportunity and believe my skills align well with the requirements.''"
proof
  let ?ask = "\<lambda>k::nat. if k = 1 then Inr '' 42 '' else (Inl ApiError :: exn + string)"
  have "(1::nat) < 3 \<and> (\<forall>j. j < (1::nat) \<longrightarrow> isl (?ask (0 + j))) \<and> ?ask (0 + 1) = Inr '' 42 ''"
    by simp
  with answer_text_with_retry_result [of ?ask 0 "''How many?''"]
  have "fst (answer_text_with_retry ?ask ''How many?'' 3 0) = strip '' 42 ''"
    by blast
  then show "fst (answer_text_with_retry ?ask ''How many?'' 3 0) = ''42''"
    by (simp add: strip_def isspace_def)
next
  let ?ask = "\<lambda>k::nat. (Inl ApiError :: exn + string)"
  have "\<forall>j. j < (3::nat) \<longrightarrow> isl (?ask (0 + j))" by simp
  with answer_text_with_retry_result [of ?ask 0 "''Why us?''"]
  have "fst (answer_text_with_retry ?ask ''Why us?'' 3 0) = get_smart_fallback ''Why us?''"
    by blast
  moreover have "get_smart_fallback ''Why us?'' =
     ''I am excited about this opportunity and believe my skills align well with the requirements.''"
    by code_simp
  ultimately show "fst (answer_text_with_retry ?ask ''Why us?'' 3 0) =
     ''I am excited about this opportunity and believe my skills align well with the requirements.''"
    by (simp only:)
qed

subsection \<open>Number inputs\<close>

lemma fold_invariant:
  "P s \<Longrightarrow> (\<And>x s. P s \<Longrightarrow> P (f x s)) \<Longrightarrow> P (fold f xs s)"
  by (induction xs arbitrary: s) auto













subsection \<open>Controls that are already filled\<close>

lemma select_step_other_lists:
  "sec_numbers (fs_section (select_step ask j st)) = sec_numbers (fs_section st) \<and>
   sec_texts (fs_section (select_step ask j st)) = sec_texts (fs_section st)"
  by (simp add: select_step_def Let_def split: sum.splits prod.splits)

lemma radio_step_other_lists:
  "sec_selects (fs_section (fst (radio_step ask j stp))) = sec_selects (fs_section (fst stp)) \<and>
   sec_numbers (fs_section (fst (radio_step ask j stp))) = sec_numbers (fs_section (fst stp)) \<and>
   sec_texts (fs_section (fst (radio_step ask j stp))) = sec_texts (fs_section (fst stp))"
  by (simp add: radio_step_def Let_def split: sum.splits prod.splits option.splits)

lemma number_step_other_lists:
  "sec_selects (fs_section (number_step ask j st)) = sec_selects (fs_section st) \<and>
   sec_texts (fs_section (number_step ask j st)) = sec_texts (fs_section st)"
  by (simp add: number_step_def Let_def split: sum.splits prod.splits)

lemma text_step_other_lists:
  "sec_selects (fs_section (text_step ask j st)) = sec_selects (fs_section st) \<and>
   sec_numbers (fs_section (text_step ask j st)) = sec_numbers (fs_section st)"
  by (simp add: text_step_def Let_def split: sum.splits prod.splits option.splits)

lemma select_step_kept:
  "sel_value (sec_selects (fs_section st) ! i) = Inr v \<Longrightarrow> strip v \<noteq> [] \<Longrightarrow>
   sec_selects (fs_section (select_step ask j st)) ! i = sec_selects (fs_section st) ! i"
  by (cases "j = i") (simp_all add: select_step_def Let_def split: sum.splits prod.splits)

lemma number_step_kept:
  "\<not> is_field_empty (sec_numbers (fs_section st) ! i) \<Longrightarrow>
   sec_numbers (fs_section (number_step ask j st)) ! i = sec_numbers (fs_section st) ! i"
  by (cases "j = i") (simp_all add: number_step_def Let_def split: sum.splits prod.splits)

lemma text_step_kept:
  "\<not> is_field_empty (sec_texts (fs_section st) ! i) \<Longrightarrow>
   sec_texts (fs_section (text_step ask j st)) ! i = sec_texts (fs_section st) ! i"
  by (cases "j = i")
     (simp_all add: text_step_def Let_def split: sum.splits prod.splits option.splits)

text \<open>
  The other three kinds of control are left alone when they are filled: a \<open>select\<close>
  whose value is not blank, and a number or text input that \<open>is_field_empty\<close> does
  not report as empty, is the same element after \<open>process_form_fields\<close> as before.
\<close>

lemma filled_controls_kept:
  fixes sec :: form_section
  shows "(sel_value (sec_selects sec ! i) = Inr v \<and> strip v \<noteq> [] \<longrightarrow>
      sec_selects (fs_section (process_form_fields ask sec n)) ! i = sec_selects sec ! i) \<and>
   (\<not> is_field_empty (sec_numbers sec ! i) \<longrightarrow>
      sec_numbers (fs_section (process_form_fields ask sec n)) ! i = sec_numbers sec ! i) \<and>
   (\<not> is_field_empty (sec_texts sec ! i) \<longrightarrow>
      sec_texts (fs_section (process_form_fields ask sec n)) ! i = sec_texts sec ! i)"
proof -
  let ?st0 = "\<lparr>fs_section = sec, fs_did_fill = False, fs_requests = n, fs_actions = []\<rparr>"
  let ?st1 = "fold (select_step ask) [0..<length (sec_selects sec)] ?st0"
  let ?st2 = "fold (radio_step ask) [0..<length (sec_radios sec)] (?st1, [])"
  let ?st3 = "fold (number_step ask) [0..<length (sec_numbers sec)] (fst ?st2)"
  let ?st4 = "fold (text_step ask) [0..<length (sec_texts sec)] ?st3"
  have run: "process_form_fields ask sec n = ?st4"
    by (simp add: process_form_fields_def Let_def)
  have selects: "sec_selects (fs_section ?st4) ! i = sec_selects sec ! i"
    if f: "sel_value (sec_selects sec ! i) = Inr v" "strip v \<noteq> []"
  proof -
    let ?P = "\<lambda>st::form_state. sec_selects (fs_section st) ! i = sec_selects sec ! i"
    have 1: "?P ?st1"
      by (rule fold_invariant [where P = ?P]) (use f in \<open>simp_all add: select_step_kept\<close>)
    have 2: "?P (fst ?st2)"
      by (rule fold_invariant [where P = "\<lambda>stp. ?P (fst stp)"])
         (use 1 in \<open>simp_all add: radio_step_other_lists\<close>)
    have 3: "?P ?st3"
      by (rule fold_invariant [where P = ?P, OF 2]) (simp add: number_step_other_lists)
    show ?thesis
      by (rule fold_invariant [where P = ?P, OF 3]) (simp add: text_step_other_lists)
  qed
  have numbers: "sec_numbers (fs_section ?st4) ! i = sec_numbers sec ! i"
    if f: "\<not> is_field_empty (sec_numbers sec ! i)"
  proof -
    let ?P = "\<lambda>st::form_state. sec_numbers (fs_section st) ! i = sec_numbers sec ! i"
    have 1: "?P ?st1"
      by (rule fold_invariant [where P = ?P]) (simp_all add: select_step_other_lists)
    have 2: "?P (fst ?st2)"
      by (rule fold_invariant [where P = "\<lambda>stp. ?P (fst stp)"])
         (use 1 in \<open>simp_all add: radio_step_other_lists\<close>)
    have 3: "?P ?st3"
      by (rule fold_invariant [where P = ?P, OF 2]) (use f in \<open>simp add: number_step_kept\<close>)
    show ?thesis
      by (rule fold_invariant [where P = ?P, OF 3]) (simp add: text_step_other_lists)
  qed
  have texts: "sec_texts (fs_section ?st4) ! i = sec_texts sec ! i"
    if f: "\<not> is_field_empty (sec_texts sec ! i)"
  proof -
    let ?P = "\<lambda>st::form_state. sec_texts (fs_section st) ! i = sec_texts sec ! i"
    have 1: "?P ?st1"
      by (rule fold_invariant [where P = ?P]) (simp_all add: select_step_other_lists)
    have 2: "?P (fst ?st2)"
      by (rule fold_invariant [where P = "\<lambda>stp. ?P (fst stp)"])
         (use 1 in \<open>simp_all add: radio_step_other_lists\<close>)
    have 3: "?P ?st3"
      by (rule fold_invariant [where P = ?P, OF 2]) (simp add: number_step_other_lists)
    show ?thesis
      by (rule fold_invariant [where P = ?P, OF 3]) (use f in \<open>simp add: text_step_kept\<close>)
  qed
  from selects numbers texts show ?thesis unfolding run by blast
qed

subsection \<open>Radio groups that already have a selection\<close>

text \<open>
  Claim C10 says that \<open>process_form_fields\<close> never overwrites a control that is
  already filled, radio groups with a checked button included.  The radio pass looks
  at \<open>is_checked()\<close> of the first button of a group only.  On \<open>travel_section\<close>, whose
  group has its second button checked, the group is answered again: with a language
  model that says \<open>Yes\<close> the first button is checked and the selection that was
  there is gone.
\<close>

theorem radio_group_selection_overwritten:
  "map radio_checked (sec_radios travel_section) = [False, True] \<and>
   map radio_checked
     (sec_radios (fs_section (process_form_fields (says ''Yes'') travel_section 0))) =
     [True, False] \<and>
   fs_actions (process_form_fields (says ''Yes'') travel_section 0) = [Check_radio 0]"
  by code_simp

subsection \<open>The dialog loop\<close>

declare modal_loop.simps [simp del]

lemma modal_loop_count_le:
  "ms_loop_count st \<le> max_loops \<Longrightarrow>
   ms_loop_count (snd (modal_loop ask clock views page modal max_duration st)) \<le> max_loops"
proof (induction ask clock views page modal max_duration st rule: modal_loop.induct)
  case (1 ask clock views page modal max_duration st)
  let ?st' = "st\<lparr>ms_loop_count := Suc (ms_loop_count st)\<rparr>"
  show ?case
  proof (cases "clock (Suc (ms_loop_count st)) - clock 0 < real_of_int max_duration \<and>
         ms_loop_count st < max_loops")
    case False
    then show ?thesis using "1.prems" by (subst modal_loop.simps) auto
  next
    case True
    obtain oc st'' where it: "modal_iteration ask page modal (views (ms_loop_count ?st')) ?st' = (oc, st'')"
      by (cases "modal_iteration ask page modal (views (ms_loop_count ?st')) ?st'") auto
    from modal_iteration_keeps_count [OF it] True
    have c: "ms_loop_count st'' \<le> max_loops" by simp
    show ?thesis
    proof (cases oc)
      case Continue
      with "1.IH" [OF True refl it [symmetric]] c it True
      show ?thesis by (subst modal_loop.simps) (simp add: Let_def)
    next
      case Break
      with c it True show ?thesis by (subst modal_loop.simps) (simp add: Let_def)
    next
      case (Return b)
      with c it True show ?thesis by (subst modal_loop.simps) (simp add: Let_def)
    qed
  qed
qed

lemma modal_loop_timeout:
  "real_of_int max_duration \<le> clock (Suc k) - clock 0 \<Longrightarrow> ms_loop_count st \<le> k \<Longrightarrow>
   ms_loop_count (snd (modal_loop ask clock views page modal max_duration st)) \<le> k"
proof (induction ask clock views page modal max_duration st rule: modal_loop.induct)
  case (1 ask clock views page modal max_duration st)
  let ?st' = "st\<lparr>ms_loop_count := Suc (ms_loop_count st)\<rparr>"
  show ?case
  proof (cases "clock (Suc (ms_loop_count st)) - clock 0 < real_of_int max_duration \<and>
         ms_loop_count st < max_loops")
    case False
    then show ?thesis using "1.prems" by (subst modal_loop.simps) auto
  next
    case True
    obtain oc st'' where it: "modal_iteration ask page modal (views (ms_loop_count ?st')) ?st' = (oc, st'')"
      by (cases "modal_iteration ask page modal (views (ms_loop_count ?st')) ?st'") auto
    from True "1.prems" have "ms_loop_count st \<noteq> k" by auto
    with "1.prems" modal_iteration_keeps_count [OF it]
    have c: "ms_loop_count st'' \<le> k" by simp
    show ?thesis
    proof (cases oc)
      case Continue
      with "1.IH" [OF True refl it [symmetric] _ "1.prems"(1) c] it True
      show ?thesis by (subst modal_loop.simps) (simp add: Let_def)
    next
      case Break
      with c it True show ?thesis by (subst modal_loop.simps) (simp add: Let_def)
    next
      case (Return b)
      with c it True show ?thesis by (subst modal_loop.simps) (simp add: Let_def)
    qed
  qed
qed

text \<open>
  Claim C1, as amended.  Whatever the browser, the clock and the language model do,
  the loop of \<open>process_modal_with_timeout\<close> ends and the function returns a boolean
  (the first component of the result): it runs at most \<open>max_loops = 20\<close> iterations,
  and it starts no iteration whose test of the loop condition reads a clock that is
  \<open>max_duration\<close> seconds or more past \<open>start_time\<close>.  The clock is read in the loop
  condition only, so an iteration that has started runs to its end.
\<close>

theorem process_modal_with_timeout_bounded:
  "ms_loop_count (snd (process_modal_with_timeout ask clock views page modal max_duration n)) \<le> 20 \<and>
   (\<forall>k. real_of_int max_duration \<le> clock (Suc k) - clock 0 \<longrightarrow>
      ms_loop_count (snd (process_modal_with_timeout ask clock views page modal max_duration n)) \<le> k) \<and>
   (\<exists>b st. process_modal_with_timeout ask clock views page modal max_duration n = (b, st))"
proof (intro conjI allI impI)
  show "ms_loop_count (snd (process_modal_with_timeout ask clock views page modal max_duration n)) \<le> 20"
    using modal_loop_count_le [of "\<lparr>ms_loop_count = 0, ms_seen_states = {}, ms_requests = n,
      ms_actions = []\<rparr>" ask clock views page modal max_duration]
    by (simp add: process_modal_with_timeout_def max_loops_def)
next
  fix k assume "real_of_int max_duration \<le> clock (Suc k) - clock 0"
  then show "ms_loop_count (snd (process_modal_with_timeout ask clock views page modal max_duration n)) \<le> k"
    unfolding process_modal_with_timeout_def by (rule modal_loop_timeout) simp
next
  show "\<exists>b st. process_modal_with_timeout ask clock views page modal max_duration n = (b, st)"
    by (cases "process_modal_with_timeout ask clock views page modal max_duration n") blast
qed

theorem process_modal_with_timeout_bounded_witness:
  "ms_loop_count (snd (process_modal_with_timeout (says ''Yes'') (\<lambda>k. 0) numbered_pages
      Page_handle Locator_handle 300 0)) = 20 \<and>
   ms_loop_count (snd (process_modal_with_timeout (says ''Yes'') (\<lambda>k. real k * 100) numbered_pages
      Page_handle Locator_handle 300 0)) = 2"
proof
  have "20 \<le> ms_loop_count (snd (process_modal_with_timeout (says ''Yes'') (\<lambda>k. 0) numbered_pages
      Page_handle Locator_handle 300 0))"
    by code_simp
  with process_modal_with_timeout_bounded [of "says ''Yes''" "\<lambda>k. 0" numbered_pages
      Page_handle Locator_handle 300 0]
  show "ms_loop_count (snd (process_modal_with_timeout (says ''Yes'') (\<lambda>k. 0) numbered_pages
      Page_handle Locator_handle 300 0)) = 20"
    by linarith
next
  have late: "real_of_int 300 \<le> (\<lambda>k. real k * 100) (Suc 2) - (\<lambda>k. real k * 100) 0"
    by simp
  have "2 \<le> ms_loop_count (snd (process_modal_with_timeout (says ''Yes'') (\<lambda>k. real k * 100)
      numbered_pages Page_handle Locator_handle 300 0))"
    by code_simp
  moreover from process_modal_with_timeout_bounded [of "says ''Yes''" "\<lambda>k. real k * 100"
      numbered_pages Page_handle Locator_handle 300 0] late
  have "ms_loop_count (snd (process_modal_with_timeout (says ''Yes'') (\<lambda>k. real k * 100)
      numbered_pages Page_handle Locator_handle 300 0)) \<le> 2"
    by blast
  ultimately show "ms_loop_count (snd (process_modal_with_timeout (says ''Yes'')
      (\<lambda>k. real k * 100) numbered_pages Page_handle Locator_handle 300 0)) = 2"
    by linarith
qed

text \<open>
  The claim as the specification states it, that the loop exits as soon as
  \<open>max_duration\<close> seconds have passed, fails.  On \<open>questions_page\<close> with a language
  model that never answers, the first iteration starts with no time gone and then
  asks three times for each of its 110 text inputs, sleeping one and two seconds
  between the requests of each.  After the first 99 inputs it has slept 297
  seconds, and before the hundredth it sleeps three more: that input, the ten after it
  and the \<open>Next\<close> button are written and clicked when 300 seconds and more have
  passed, with \<open>max_duration = 300\<close>.
\<close>

theorem iteration_runs_past_time_limit:
  "after_sleeping 300 (ms_actions (snd (process_modal_with_timeout never_answers
      (\<lambda>k. if k \<le> 1 then 0 else 400) questions_page Page_handle Locator_handle 300 0))) =
     [(1, Field 9 (Fill_text 0 ''Yes'')), (1, Field 9 (Fill_text 1 ''Yes'')),
      (1, Field 9 (Fill_text 2 ''Yes'')), (1, Field 9 (Fill_text 3 ''Yes'')),
      (1, Field 9 (Fill_text 4 ''Yes'')), (1, Field 9 (Fill_text 5 ''Yes'')),
      (1, Field 9 (Fill_text 6 ''Yes'')), (1, Field 9 (Fill_text 7 ''Yes'')),
      (1, Field 9 (Fill_text 8 ''Yes'')), (1, Field 9 (Fill_text 9 ''Yes'')),
      (1, Field 9 (Fill_text 10 ''Yes'')), (1, Click ''button:has-text('Next')'')]"
  by code_simp

subsection \<open>Repeated dialog states\<close>


lemma modal_iteration_duplicate:
  "get_modal_state view \<in> ms_seen_states st \<Longrightarrow>
   modal_iteration ask page modal view st = (Break, st)"
  by (simp add: modal_iteration_def split: sum.splits)

lemma section_step_seen:
  "ms_seen_states (section_step ask sections j st) = ms_seen_states st"
  by (simp add: section_step_def Let_def performed_def split: sum.splits)

lemma sections_seen:
  "ms_seen_states (fold (section_step ask sections) js st) = ms_seen_states st"
  by (induction js arbitrary: st) (simp_all add: section_step_seen)

lemma click_navigation_seen:
  "ms_seen_states (snd (click_navigation view selector button_type st)) = ms_seen_states st"
  by (simp add: click_navigation_def performed_def)

lemma modal_iteration_records:
  "modal_iteration ask page modal view st = (Continue, st') \<Longrightarrow>
   ms_seen_states st' = insert (get_modal_state view) (ms_seen_states st)"
  by (auto simp: modal_iteration_def Let_def performed_def sections_seen
      click_navigation_def split: sum.splits prod.splits option.splits list.splits if_splits)

lemma section_step_actions:
  "(i, a) \<in> set (ms_actions (section_step ask sections j st)) \<Longrightarrow>
   (i, a) \<in> set (ms_actions st) \<or> i = ms_loop_count st"
  by (auto simp: section_step_def Let_def performed_def split: sum.splits if_splits)

lemma sections_actions:
  "(i, a) \<in> set (ms_actions (fold (section_step ask sections) js st)) \<Longrightarrow>
   (i, a) \<in> set (ms_actions st) \<or> i = ms_loop_count st"
proof (induction js arbitrary: st)
  case Nil
  then show ?case by simp
next
  case (Cons j js)
  from Cons.IH [of "section_step ask sections j st"] Cons.prems
  have "(i, a) \<in> set (ms_actions (section_step ask sections j st)) \<or>
        i = ms_loop_count (section_step ask sections j st)" by simp
  then show ?case using section_step_actions [of i a ask sections j st]
    by (auto simp: section_step_loop_count)
qed

lemma modal_iteration_actions:
  "modal_iteration ask page modal view st = (oc, st') \<Longrightarrow>
   (i, a) \<in> set (ms_actions st') \<Longrightarrow>
   (i, a) \<in> set (ms_actions st) \<or> i = ms_loop_count st"
  by (auto simp: modal_iteration_def Let_def performed_def click_navigation_def
      sections_loop_count dest!: sections_actions
      split: sum.splits prod.splits option.splits list.splits if_splits)


lemma modal_loop_no_repeat:
  "(\<And>j. 1 \<le> j \<Longrightarrow> j \<le> ms_loop_count st \<Longrightarrow> get_modal_state (views j) \<in> ms_seen_states st) \<Longrightarrow>
   (\<And>i a. (i, a) \<in> set (ms_actions st) \<Longrightarrow> i \<le> ms_loop_count st) \<Longrightarrow>
   1 \<le> j \<Longrightarrow> j < k \<Longrightarrow> ms_loop_count st < k \<Longrightarrow>
   k \<le> ms_loop_count (snd (modal_loop ask clock views page modal max_duration st)) \<Longrightarrow>
   get_modal_state (views k) = get_modal_state (views j) \<Longrightarrow>
   ms_loop_count (snd (modal_loop ask clock views page modal max_duration st)) = k \<and>
   \<not> fst (modal_loop ask clock views page modal max_duration st) \<and>
   (\<forall>a. (k, a) \<notin> set (ms_actions (snd (modal_loop ask clock views page modal max_duration st))))"
proof (induction ask clock views page modal max_duration st rule: modal_loop.induct)
  case (1 ask clock views page modal max_duration st)
  let ?st' = "st\<lparr>ms_loop_count := Suc (ms_loop_count st)\<rparr>"
  let ?r = "modal_loop ask clock views page modal max_duration st"
  show ?case
  proof (cases "clock (Suc (ms_loop_count st)) - clock 0 < real_of_int max_duration \<and>
         ms_loop_count st < max_loops")
    case False
    then have "?r = (False, st)" by (subst modal_loop.simps) auto
    with "1.prems"(5,6) show ?thesis by simp
  next
    case True
    obtain oc st'' where
      it: "modal_iteration ask page modal (views (ms_loop_count ?st')) ?st' = (oc, st'')"
      by (cases "modal_iteration ask page modal (views (ms_loop_count ?st')) ?st'") auto
    have lc: "ms_loop_count st'' = Suc (ms_loop_count st)"
      using modal_iteration_keeps_count [OF it] by simp
    have r: "?r = (case oc of Continue \<Rightarrow> modal_loop ask clock views page modal max_duration st''
        | Break \<Rightarrow> (False, st'') | Return b \<Rightarrow> (b, st''))"
      using True it by (subst modal_loop.simps) (simp add: Let_def)
    show ?thesis
    proof (cases "k = Suc (ms_loop_count st)")
      case True
      with "1.prems"(3,4) have "j \<le> ms_loop_count st" by simp
      with "1.prems"(1) [of j] "1.prems"(3,7) True
      have "get_modal_state (views (ms_loop_count ?st')) \<in> ms_seen_states ?st'" by simp
      from modal_iteration_duplicate [OF this, of ask page modal] it
      have "oc = Break" "st'' = ?st'" by simp_all
      with r have "?r = (False, ?st')" by simp
      moreover have "(k, a) \<notin> set (ms_actions st)" for a
        using "1.prems"(2) [of k a] "1.prems"(5) by auto
      ultimately show ?thesis using True by simp
    next
      case False
      with "1.prems"(5) have lt: "ms_loop_count st'' < k" using lc by simp
      show ?thesis
      proof (cases oc)
        case Break
        with r lt "1.prems"(6) show ?thesis by simp
      next
        case (Return b)
        with r lt "1.prems"(6) show ?thesis by simp
      next
        case Continue
        with r have r': "?r = modal_loop ask clock views page modal max_duration st''" by simp
        have seen: "ms_seen_states st'' =
            insert (get_modal_state (views (ms_loop_count ?st'))) (ms_seen_states ?st')"
          using modal_iteration_records it Continue by blast
        have inv1: "get_modal_state (views j') \<in> ms_seen_states st''"
          if "1 \<le> j'" "j' \<le> ms_loop_count st''" for j'
        proof (cases "j' = Suc (ms_loop_count st)")
          case True
          then show ?thesis using seen by simp
        next
          case False
          with that lc have "j' \<le> ms_loop_count st" by simp
          with "1.prems"(1) [of j'] that(1) show ?thesis using seen by simp
        qed
        have inv2: "i \<le> ms_loop_count st''" if "(i, a) \<in> set (ms_actions st'')" for i a
          using modal_iteration_actions [OF it that] "1.prems"(2) [of i a] lc by auto
        from "1.IH" [OF True refl it [symmetric] Continue inv1 inv2 "1.prems"(3,4) lt _ "1.prems"(7)]
          "1.prems"(6) r'
        show ?thesis by simp
      qed
    qed
  qed
qed

text \<open>
  Claim C2.  Within one call of \<open>process_modal_with_timeout\<close> no state is processed
  twice: when iteration \<open>k\<close> is reached and the state string of the dialog in it,
  \<open>get_modal_state\<close>, is that of an earlier iteration \<open>j\<close> (every earlier iteration
  recorded its state, or the loop would have ended there), iteration \<open>k\<close> is the last
  one, the function returns \<open>False\<close>, and iteration \<open>k\<close> performs no action at all: no
  field is written and no button is clicked.
\<close>

theorem no_modal_state_processed_twice:
  "\<forall>j k. 1 \<le> j \<and> j < k \<and>
     k \<le> ms_loop_count (snd (process_modal_with_timeout ask clock views page modal max_duration n)) \<and>
     get_modal_state (views k) = get_modal_state (views j) \<longrightarrow>
     ms_loop_count (snd (process_modal_with_timeout ask clock views page modal max_duration n)) = k \<and>
     \<not> fst (process_modal_with_timeout ask clock views page modal max_duration n) \<and>
     (\<forall>a. (k, a) \<notin> set (ms_actions
        (snd (process_modal_with_timeout ask clock views page modal max_duration n))))"
proof (intro allI impI)
  fix j k
  let ?st0 = "\<lparr>ms_loop_count = 0, ms_seen_states = {}, ms_requests = n, ms_actions = []\<rparr>"
  assume h: "1 \<le> j \<and> j < k \<and>
     k \<le> ms_loop_count (snd (process_modal_with_timeout ask clock views page modal max_duration n)) \<and>
     get_modal_state (views k) = get_modal_state (views j)"
  then have k: "k \<le> ms_loop_count (snd (modal_loop ask clock views page modal max_duration ?st0))"
    by (simp add: process_modal_with_timeout_def)
  have "ms_loop_count (snd (modal_loop ask clock views page modal max_duration ?st0)) = k \<and>
     \<not> fst (modal_loop ask clock views page modal max_duration ?st0) \<and>
     (\<forall>a. (k, a) \<notin> set (ms_actions (snd (modal_loop ask clock views page modal max_duration ?st0))))"
  proof (rule modal_loop_no_repeat [of ?st0 views j k])
    show "1 \<le> j" "j < k" "get_modal_state (views k) = get_modal_state (views j)"
      using h by simp_all
    show "ms_loop_count ?st0 < k" using h by simp
    show "k \<le> ms_loop_count (snd (modal_loop ask clock views page modal max_duration ?st0))"
      by (rule k)
  qed simp_all
  then show "ms_loop_count (snd (process_modal_with_timeout ask clock views page modal max_duration n)) = k \<and>
     \<not> fst (process_modal_with_timeout ask clock views page modal max_duration n) \<and>
     (\<forall>a. (k, a) \<notin> set (ms_actions
        (snd (process_modal_with_timeout ask clock views page modal max_duration n))))"
    by (simp add: process_modal_with_timeout_def)
qed

theorem no_modal_state_processed_twice_witness:
  "ms_actions (snd (process_modal_with_timeout (says ''Yes'') (\<lambda>k. 0) same_page
      Page_handle Locator_handle 300 0)) = [(1, Click ''button:has-text('Next')'')] \<and>
   ms_loop_count (snd (process_modal_with_timeout (says ''Yes'') (\<lambda>k. 0) same_page
      Page_handle Locator_handle 300 0)) = 2 \<and>
   \<not> fst (process_modal_with_timeout (says ''Yes'') (\<lambda>k. 0) same_page
      Page_handle Locator_handle 300 0) \<and>
   (2, Click ''button:has-text('Next')'') \<notin> set (ms_actions (snd (process_modal_with_timeout
      (says ''Yes'') (\<lambda>k. 0) same_page Page_handle Locator_handle 300 0)))"
proof -
  let ?r = "process_modal_with_timeout (says ''Yes'') (\<lambda>k. 0) same_page
      Page_handle Locator_handle 300 0"
  have acts: "ms_actions (snd ?r) = [(1, Click ''button:has-text('Next')'')]"
    by code_simp
  have reached: "2 \<le> ms_loop_count (snd ?r)"
    by code_simp
  have same: "get_modal_state (same_page 2) = get_modal_state (same_page 1)"
    by (simp add: same_page_def)
  from reached same
  have hyp: "1 \<le> (1::nat) \<and> (1::nat) < 2 \<and> 2 \<le> ms_loop_count (snd ?r) \<and>
      get_modal_state (same_page 2) = get_modal_state (same_page 1)"
    by simp
  from no_modal_state_processed_twice [of "says ''Yes''" "\<lambda>k. 0" same_page
      Page_handle Locator_handle 300 0, rule_format, of 1 2, OF hyp]
  have "ms_loop_count (snd ?r) = 2 \<and> \<not> fst ?r \<and> (\<forall>a. (2, a) \<notin> set (ms_actions (snd ?r)))" .
  with acts show ?thesis by simp
qed

subsection \<open>The time limit of the dialog in \<open>main\<close>\<close>

text \<open>
  In \<open>main\<close> the object passed as \<open>modal\<close> is the page, so the first thing an iteration
  does, \<open>modal.is_visible()\<close>, raises; the iteration's handler breaks.  The call made
  by \<open>main\<close> therefore never performs an action and never reports success.
\<close>

lemma main_process_modal_incomplete:
  "fst (main_process_modal cfg ask clock views n) = False \<and>
   ms_actions (snd (main_process_modal cfg ask clock views n)) = []"
  unfolding main_process_modal_def process_modal_with_timeout_def
  by (subst modal_loop.simps, subst modal_loop.simps)
     (simp add: modal_iteration_def is_visible_def)

text \<open>
  Claim C3 says that processing one dialog in \<open>main\<close> stops once \<open>MODAL_TIMEOUT\<close>
  seconds have passed.  \<open>main\<close> reads \<open>MODAL_TIMEOUT\<close> and never passes it on: the limit
  in force is the default 300 of \<open>max_duration\<close>, whatever the setting.  With
  \<open>MODAL_TIMEOUT = 0\<close>, or with \<open>MODAL_TIMEOUT = 10\<close> and a first reading of the clock
  12 seconds after the start, the time is up before the first iteration, and the loop
  runs an iteration all the same.
\<close>

theorem modal_timeout_setting_ignored:
  "ms_loop_count (snd (main_process_modal \<lparr>MAX_APPLIES = 5, MODAL_TIMEOUT = 0\<rparr>
      ask (\<lambda>k. 0) views n)) = 1 \<and>
   ms_loop_count (snd (main_process_modal \<lparr>MAX_APPLIES = 5, MODAL_TIMEOUT = 10\<rparr>
      ask (\<lambda>k. real k * 12) views n)) = 1 \<and>
   main_process_modal (cfg\<lparr>MODAL_TIMEOUT := t\<rparr>) ask clock views n =
     main_process_modal cfg ask clock views n"
  unfolding main_process_modal_def process_modal_with_timeout_def
  by (subst modal_loop.simps, subst modal_loop.simps)
     (simp add: modal_iteration_def is_visible_def max_loops_def)

subsection \<open>The records of a run\<close>

lemma job_step_results:
  "results (job_step cfg ask jobs i st) = results st \<or>
   (\<exists>t c l ts du s. results (job_step cfg ask jobs i st) =
      results st @ [application_record t c l ts du s])"
proof (cases "jv_cards_count (jobs i)")
  case (Inl e)
  then show ?thesis by (simp add: job_step_def)
next
  case (Inr cards)
  show ?thesis
  proof (cases "jv_dialog_visible (jobs i)")
    case (Inl e)
    with Inr show ?thesis by (simp add: job_step_def Let_def)
  next
    case vis: (Inr visible)
    obtain success ms where pm: "main_process_modal cfg ask (jv_clock (jobs i)) (jv_views (jobs i))
        (requests st) = (success, ms)"
      by (cases "main_process_modal cfg ask (jv_clock (jobs i)) (jv_views (jobs i)) (requests st)")
    from Inr vis pm show ?thesis
      by (simp add: job_step_def Let_def) blast
  qed
qed

lemma fold_job_step_results:
  "\<exists>rs. results (fold (job_step cfg ask jobs) xs st) = results st @ rs \<and>
     length rs \<le> length xs \<and>
     (\<forall>d. d \<in> set rs \<longrightarrow> (\<exists>t c l ts du s. d = application_record t c l ts du s))"
proof (induction xs arbitrary: st)
  case Nil
  show ?case by simp
next
  case (Cons x xs)
  from Cons.IH [of "job_step cfg ask jobs x st"] obtain rs where
    rs: "results (fold (job_step cfg ask jobs) xs (job_step cfg ask jobs x st)) =
          results (job_step cfg ask jobs x st) @ rs"
      "length rs \<le> length xs"
      "\<forall>d. d \<in> set rs \<longrightarrow> (\<exists>t c l ts du s. d = application_record t c l ts du s)"
    by blast
  from job_step_results [of cfg ask jobs x st] show ?case
  proof
    assume "results (job_step cfg ask jobs x st) = results st"
    with rs show ?thesis by (intro exI [of _ rs]) simp
  next
    assume "\<exists>t c l ts du s. results (job_step cfg ask jobs x st) =
      results st @ [application_record t c l ts du s]"
    then obtain t c l ts du s where
      step: "results (job_step cfg ask jobs x st) = results st @ [application_record t c l ts du s]"
      by blast
    show ?thesis
    proof (intro exI [of _ "application_record t c l ts du s # rs"] conjI allI impI)
      show "results (fold (job_step cfg ask jobs) (x # xs) st) =
          results st @ application_record t c l ts du s # rs"
        using rs(1) step by simp
      show "length (application_record t c l ts du s # rs) \<le> length (x # xs)"
        using rs(2) by simp
      fix d assume "d \<in> set (application_record t c l ts du s # rs)"
      then have "d = application_record t c l ts du s \<or> d \<in> set rs" by simp
      then show "\<exists>t c l ts du s. d = application_record t c l ts du s"
        using rs(3) by blast
    qed
  qed
qed

lemma job_loop_results:
  "length (results (job_loop cfg ask count jobs n)) \<le> nat (min (int count) (MAX_APPLIES cfg)) \<and>
   (\<forall>d. d \<in> set (results (job_loop cfg ask count jobs n)) \<longrightarrow>
      (\<exists>t c l ts du s. d = application_record t c l ts du s))"
  using fold_job_step_results [of cfg ask jobs "[0..<nat (min (int count) (MAX_APPLIES cfg))]"
      "\<lparr>results = [], requests = n\<rparr>"]
  by (auto simp: job_loop_def Let_def)

lemma dict_row_application_record:
  "dict_row fieldnames (application_record t c l ts du s) =
     Inr (map snd (application_record t c l ts du s))"
  by (simp add: dict_row_def fieldnames_def application_record_def)

lemma dict_row_automation_record:
  "dict_row automation_fieldnames (automation_record t c l ts du) =
     Inr (map snd (automation_record t c l ts du))"
  by (simp add: dict_row_def automation_fieldnames_def automation_record_def)

lemma writerows_all:
  "(\<And>d. d \<in> set ds \<Longrightarrow> dict_row fns d = Inr (g d)) \<Longrightarrow>
   writerows fns f ds = (f @ map g ds, None)"
  by (induction ds arbitrary: f) auto

lemma save_results_all:
  assumes "\<And>d. d \<in> set rs \<Longrightarrow> dict_row fns d = Inr (g d)"
  shows "save_results fns file rs =
     ((case file of None \<Rightarrow> [] | Some old \<Rightarrow> old) @ (if file = None then [fns] else []) @
      map g rs, None)"
  using writerows_all [of rs fns g, OF assms]
  by (cases "file") (simp_all add: save_results_def)

lemma main_content:
  "main cfg ask count jobs file =
     ((case file of None \<Rightarrow> [] | Some old \<Rightarrow> old) @
      (if file = None then [fieldnames] else []) @
      map (map snd) (results (job_loop cfg ask count jobs 0)), None)"
  unfolding main_def
proof (rule save_results_all)
  fix d assume "d \<in> set (results (job_loop cfg ask count jobs 0))"
  with job_loop_results [of cfg ask count jobs 0]
  obtain t c l ts du s where "d = application_record t c l ts du s" by blast
  then show "dict_row fieldnames d = Inr (map snd d)"
    by (simp add: dict_row_application_record)
qed

lemma automation_save_content:
  "automation_save file (map (\<lambda>(t, c, l, ts, du). automation_record t c l ts du) apps) =
     ((case file of None \<Rightarrow> [] | Some old \<Rightarrow> old) @
      (if file = None then [automation_fieldnames] else []) @
      map (map snd) (map (\<lambda>(t, c, l, ts, du). automation_record t c l ts du) apps), None)"
  unfolding automation_save_def
  by (rule save_results_all) (auto simp: dict_row_automation_record)

text \<open>
  Claim C5, as amended.  Every record that \<open>linkedin_easy_apply_improved.py\<close>
  collects has the six keys \<open>Title\<close>, \<open>Company\<close>, \<open>Link\<close>, \<open>DateApplied\<close>, \<open>Runtime\<close>,
  \<open>Status\<close> in this order, and is written as the row of its six values in this order;
  every record that \<open>automation.py\<close> collects has the five keys \<open>Title\<close>, \<open>Company\<close>,
  \<open>Link\<close>, \<open>DateApplied\<close>, \<open>Runtime\<close> and is written as the row of its five values:
  its rows have no \<open>Status\<close> field.
\<close>

theorem recorded_rows_fields:
  "(\<forall>d. d \<in> set (results (job_loop cfg ask count jobs n)) \<longrightarrow>
      map fst d = [''Title'', ''Company'', ''Link'', ''DateApplied'', ''Runtime'', ''Status''] \<and>
      dict_row fieldnames d = Inr (map snd d) \<and> length (map snd d) = 6) \<and>
   fst (main cfg ask count jobs file) =
     (case file of None \<Rightarrow> [] | Some old \<Rightarrow> old) @
     (if file = None
      then [[''Title'', ''Company'', ''Link'', ''DateApplied'', ''Runtime'', ''Status'']] else []) @
     map (map snd) (results (job_loop cfg ask count jobs 0)) \<and>
   map fst (automation_record t c l ts du) =
     [''Title'', ''Company'', ''Link'', ''DateApplied'', ''Runtime''] \<and>
   dict_row automation_fieldnames (automation_record t c l ts du) =
     Inr (map snd (automation_record t c l ts du)) \<and>
   length (map snd (automation_record t c l ts du)) = 5"
proof (intro conjI allI impI)
  fix d assume "d \<in> set (results (job_loop cfg ask count jobs n))"
  with job_loop_results [of cfg ask count jobs n]
  obtain t c l ts du s where d: "d = application_record t c l ts du s" by blast
  show "map fst d = [''Title'', ''Company'', ''Link'', ''DateApplied'', ''Runtime'', ''Status'']"
    by (simp add: d application_record_def)
  show "dict_row fieldnames d = Inr (map snd d)"
    by (simp add: d dict_row_application_record)
  show "length (map snd d) = 6"
    by (simp add: d application_record_def)
next
  show "fst (main cfg ask count jobs file) =
     (case file of None \<Rightarrow> [] | Some old \<Rightarrow> old) @
     (if file = None
      then [[''Title'', ''Company'', ''Link'', ''DateApplied'', ''Runtime'', ''Status'']] else []) @
     map (map snd) (results (job_loop cfg ask count jobs 0))"
    by (simp add: main_content fieldnames_def)
next
  show "map fst (automation_record t c l ts du) =
     [''Title'', ''Company'', ''Link'', ''DateApplied'', ''Runtime'']"
    by (simp add: automation_record_def)
  show "dict_row automation_fieldnames (automation_record t c l ts du) =
     Inr (map snd (automation_record t c l ts du))"
    by (rule dict_row_automation_record)
  show "length (map snd (automation_record t c l ts du)) = 5"
    by (simp add: automation_record_def)
qed

theorem recorded_rows_fields_witness:
  "results (job_loop two_applies (says ''Yes'') 3 (\<lambda>i. acme_job) 0) =
     [application_record ''Intern, Software'' ''Acme'' ''/jobs/view/1'' ''2025-01-01 10:00:00''
        ''12 sec'' False,
      application_record ''Intern, Software'' ''Acme'' ''/jobs/view/1'' ''2025-01-01 10:00:00''
        ''12 sec'' False] \<and>
   dict_row fieldnames (application_record ''Intern, Software'' ''Acme'' ''/jobs/view/1''
     ''2025-01-01 10:00:00'' ''12 sec'' False) =
     Inr [''Intern - Software'', ''Acme'', ''/jobs/view/1'', ''2025-01-01 10:00:00'', ''12 sec'',
          ''Incomplete'']"
proof -
  let ?d = "application_record ''Intern, Software'' ''Acme'' ''/jobs/view/1''
     ''2025-01-01 10:00:00'' ''12 sec'' False"
  have run: "results (job_loop two_applies (says ''Yes'') 3 (\<lambda>i. acme_job) 0) = [?d, ?d]"
    by code_simp
  then have mem: "?d \<in> set (results (job_loop two_applies (says ''Yes'') 3 (\<lambda>i. acme_job) 0))"
    by simp
  have vals: "map snd ?d = [''Intern - Software'', ''Acme'', ''/jobs/view/1'',
      ''2025-01-01 10:00:00'', ''12 sec'', ''Incomplete'']"
    by code_simp
  from recorded_rows_fields [of two_applies "says ''Yes''" 3 "\<lambda>i. acme_job" 0] mem
  have "dict_row fieldnames ?d = Inr (map snd ?d)" by blast
  with run vals show ?thesis by simp
qed

text \<open>
  The claim as the specification states it, six fields with \<open>Status\<close> in every recorded
  row, fails for \<open>automation.py\<close>: the row it writes for an application has five
  fields.
\<close>

theorem automation_rows_lack_status:
  "fst (automation_save None
     [automation_record ''Intern'' ''Acme'' (Some ''/jobs/view/1'') ''2025-01-01 10:00:00''
        ''12 sec'']) =
     [[''Title'', ''Company'', ''Link'', ''DateApplied'', ''Runtime''],
      [''Intern'', ''Acme'', ''/jobs/view/1'', ''2025-01-01 10:00:00'', ''12 sec'']] \<and>
   \<not> (\<forall>row. row \<in> set (fst (automation_save None
     [automation_record ''Intern'' ''Acme'' (Some ''/jobs/view/1'') ''2025-01-01 10:00:00''
        ''12 sec''])) \<longrightarrow> length row = 6)"
proof -
  have run: "fst (automation_save None
     [automation_record ''Intern'' ''Acme'' (Some ''/jobs/view/1'') ''2025-01-01 10:00:00''
        ''12 sec'']) =
     [[''Title'', ''Company'', ''Link'', ''DateApplied'', ''Runtime''],
      [''Intern'', ''Acme'', ''/jobs/view/1'', ''2025-01-01 10:00:00'', ''12 sec'']]"
    by code_simp
  show ?thesis unfolding run by auto
qed

text \<open>
  Claim C6.  Both scripts record by appending: the file after the run is the file
  before it (nothing for a file that did not exist), followed by the header row exactly
  when the file did not exist, followed by one row per collected record.
\<close>

theorem records_are_appended:
  "fst (main cfg ask count jobs file) =
     (case file of None \<Rightarrow> [] | Some old \<Rightarrow> old) @
     (if file = None then [fieldnames] else []) @
     map (map snd) (results (job_loop cfg ask count jobs 0)) \<and>
   fst (automation_save file (map (\<lambda>(t, c, l, ts, du). automation_record t c l ts du) apps)) =
     (case file of None \<Rightarrow> [] | Some old \<Rightarrow> old) @
     (if file = None then [automation_fieldnames] else []) @
     map (map snd) (map (\<lambda>(t, c, l, ts, du). automation_record t c l ts du) apps)"
  by (simp only: main_content automation_save_content fst_conv)

theorem records_are_appended_witness:
  "fst (main two_applies (says ''Yes'') 1 (\<lambda>i. acme_job) (Some [[''kept'', ''as'', ''it was'']])) =
     [[''kept'', ''as'', ''it was''],
      [''Intern - Software'', ''Acme'', ''/jobs/view/1'', ''2025-01-01 10:00:00'', ''12 sec'',
       ''Incomplete'']] \<and>
   fst (main two_applies (says ''Yes'') 1 (\<lambda>i. acme_job) None) =
     [[''Title'', ''Company'', ''Link'', ''DateApplied'', ''Runtime'', ''Status''],
      [''Intern - Software'', ''Acme'', ''/jobs/view/1'', ''2025-01-01 10:00:00'', ''12 sec'',
       ''Incomplete'']]"
proof -
  have rows: "map (map snd) (results (job_loop two_applies (says ''Yes'') 1 (\<lambda>i. acme_job) 0)) =
      [[''Intern - Software'', ''Acme'', ''/jobs/view/1'', ''2025-01-01 10:00:00'', ''12 sec'',
        ''Incomplete'']]"
    by code_simp
  from records_are_appended [of two_applies "says ''Yes''" 1 "\<lambda>i. acme_job"
      "Some [[''kept'', ''as'', ''it was'']]" "[]"]
    records_are_appended [of two_applies "says ''Yes''" 1 "\<lambda>i. acme_job" None "[]"]
  show ?thesis by (simp add: rows fieldnames_def del: One_nat_def)
qed



end
